theory Spec2Isabelle
  imports Complex_Main
begin

section \<open>The numpy operations used by the stream generator\<close>

text \<open>
  The generator of \<^verbatim>\<open>strlearn/streams/StreamGenerator.py\<close> is written with numpy
  arrays. One-dimensional arrays (noise, probabilities, selectors, labels) are lists;
  the arrays of features, whose number of axes depends on the configuration, carry their
  shape and their elements in row-major order. Floating-point numbers are modelled as
  reals and their comparisons are exact. The one sum the code accumulates, the running
  threshold of the static balance, is added with a parameter \<open>fadd\<close> that stands for
  the addition of float64, whatever it rounds to; the rounding of the other operations
  is outside the model. The exceptions numpy and Python raise on the way are values of
  \<open>error\<close>.
\<close>

datatype error =
    OperandsNotBroadcast   \<comment> \<open>ValueError: operands could not be broadcast together\<close>
  | ChoiceShapeMismatch    \<comment> \<open>ValueError: shape mismatch in np.choose\<close>
  | InvalidChoice          \<comment> \<open>ValueError: invalid entry in choice array\<close>
  | EmptyChoices           \<comment> \<open>ValueError: 0-length sequence\<close>
  | UnsizedChoices         \<comment> \<open>TypeError: len() of unsized object\<close>
  | IndexError             \<comment> \<open>IndexError: too many indices for array\<close>
  | AttributeError         \<comment> \<open>AttributeError: reading an attribute that was never set\<close>

record ndarray =
  shape :: "nat list"
  data :: "real list"

text \<open>Broadcasting of two axis lengths: equal lengths, or one of them is 1.\<close>

definition broadcast_dim :: "nat \<Rightarrow> nat \<Rightarrow> nat option" where
  "broadcast_dim m n =
     (if m = n then Some m else if m = 1 then Some n else if n = 1 then Some m else None)"

text \<open>Reading element \<open>j\<close> of a one-dimensional array that may have been broadcast.\<close>

definition bget :: "'a list \<Rightarrow> nat \<Rightarrow> 'a" where
  "bget xs j = xs ! (if length xs = 1 then 0 else j)"

text \<open>\<^verbatim>\<open>(xs < ys).astype(int)\<close> for one-dimensional arrays.\<close>

definition np_less :: "real list \<Rightarrow> real list \<Rightarrow> error + int list" where
  "np_less xs ys =
     (case broadcast_dim (length xs) (length ys) of
        None \<Rightarrow> Inl OperandsNotBroadcast
      | Some m \<Rightarrow> Inr (map (\<lambda>j. if bget xs j < bget ys j then 1 else 0) [0..<m]))"

text \<open>\<^verbatim>\<open>astype(int)\<close> of a float truncates towards zero.\<close>

definition astype_int :: "real \<Rightarrow> int" where
  "astype_int x = (if 0 \<le> x then \<lfloor>x\<rfloor> else \<lceil>x\<rceil>)"

text \<open>\<^verbatim>\<open>np.linspace(start, stop, num)\<close>: \<open>num\<close> evenly spaced values, both ends included.\<close>

definition linspace :: "real \<Rightarrow> real \<Rightarrow> nat \<Rightarrow> real list" where
  "linspace start stop num =
     (if num = 1 then [start]
      else map (\<lambda>k. start + real k * ((stop - start) / real (num - 1))) [0..<num])"

text \<open>
  \<^verbatim>\<open>np.choose(a, choices)\<close> for a one-dimensional index array \<open>a\<close> and an array of
  choices: the first axis of \<open>choices\<close> enumerates the choices, \<open>a\<close> is broadcast against
  the last axis of each choice, and every index met while the result is filled has to
  name a choice (mode \<^verbatim>\<open>raise\<close>). The limit numpy puts on the number of choices (32 or
  64, by version) is not modelled.
\<close>

definition np_choose :: "int list \<Rightarrow> ndarray \<Rightarrow> error + ndarray" where
  "np_choose a choices =
     (case shape choices of
        [] \<Rightarrow> Inl UnsizedChoices
      | n # cshape \<Rightarrow>
          if n = 0 then Inl EmptyChoices
          else
            let inner = (if cshape = [] then 1 else last cshape);
                outer = prod_list (butlast cshape)
            in case broadcast_dim (length a) inner of
                 None \<Rightarrow> Inl ChoiceShapeMismatch
               | Some m \<Rightarrow>
                   let cells = concat (map (\<lambda>p. map (\<lambda>j. (p, j)) [0..<m]) [0..<outer])
                   in if list_ex (\<lambda>(p, j). bget a j < 0 \<or> int n \<le> bget a j) cells
                      then Inl InvalidChoice
                      else Inr \<lparr>shape = butlast cshape @ [m],
                                data = map (\<lambda>(p, j). (data choices) !
                                          (nat (bget a j) * (outer * inner) + p * inner
                                             + (if inner = 1 then 0 else j))) cells\<rparr>)"

text \<open>\<^verbatim>\<open>np.squeeze\<close> drops every axis of length one.\<close>

definition np_squeeze :: "ndarray \<Rightarrow> ndarray" where
  "np_squeeze a = a\<lparr>shape := filter (\<lambda>d. d \<noteq> 1) (shape a)\<rparr>"

text \<open>Row-major positions and multi-indices, and \<^verbatim>\<open>.T\<close>, which reverses the axes.\<close>

fun unravel :: "nat list \<Rightarrow> nat \<Rightarrow> nat list" where
  "unravel [] k = []"
| "unravel (d # ds) k = (k div prod_list ds) # unravel ds (k mod prod_list ds)"

fun ravel :: "nat list \<Rightarrow> nat list \<Rightarrow> nat" where
  "ravel (d # ds) (i # is) = i * prod_list ds + ravel ds is"
| "ravel _ _ = 0"

definition np_T :: "ndarray \<Rightarrow> ndarray" where
  "np_T a =
     \<lparr>shape = rev (shape a),
      data = map (\<lambda>k. data a ! ravel (shape a) (rev (unravel (rev (shape a)) k)))
               [0..<prod_list (shape a)]\<rparr>"

text \<open>The slices \<^verbatim>\<open>a[start:end]\<close> along the first axis, and of a list.\<close>

definition np_slice :: "ndarray \<Rightarrow> nat \<Rightarrow> nat \<Rightarrow> error + ndarray" where
  "np_slice a start end =
     (case shape a of
        [] \<Rightarrow> Inl IndexError
      | n # rest \<Rightarrow>
          Inr \<lparr>shape = (min end n - min start n) # rest,
               data = take ((min end n - min start n) * prod_list rest)
                        (drop (min start n * prod_list rest) (data a))\<rparr>)"

definition slice :: "'a list \<Rightarrow> nat \<Rightarrow> nat \<Rightarrow> 'a list" where
  "slice xs start end = take (end - start) (drop start xs)"

text \<open>
  \<^verbatim>\<open>sel[np.where(sel[start:end] == x)[0] + start] = v\<close>: inside the slice, the entries
  equal to \<open>x\<close> become \<open>v\<close>.
\<close>

definition assign_where :: "int list \<Rightarrow> nat \<Rightarrow> nat \<Rightarrow> int \<Rightarrow> int \<Rightarrow> int list" where
  "assign_where sel start end x v =
     map (\<lambda>j. if start \<le> j \<and> j < end \<and> sel ! j = x then v else sel ! j) [0..<length sel]"

subsection \<open>The global random number generator\<close>

text \<open>
  \<^verbatim>\<open>np.random.rand(n)\<close> draws from numpy's global generator. Its state is the sequence
  of the numbers it has yet to produce; a draw returns the first \<open>n\<close> and moves on.
\<close>

type_synonym rng = "nat \<Rightarrow> real"

definition rand :: "rng \<Rightarrow> nat \<Rightarrow> real list \<times> rng" where
  "rand r n = (map r [0..<n], \<lambda>k. r (k + n))"

subsection \<open>The external collaborators\<close>

text \<open>
  \<^verbatim>\<open>make_classification\<close> of scikit-learn is a black box: for a seed, a number of
  samples, a number of classes and the class selected by the one-hot weights it returns
  a matrix of features of shape (samples, features), the same for the same arguments.
  The keyword arguments passed through to it, the number of features among them, are
  part of the sampler; that it may reject its arguments is not modelled. The logistic
  distribution function of scipy is a parameter \<open>cdf\<close> of the functions below.
\<close>

record sampler =
  n_features :: nat
  feature :: "int \<Rightarrow> nat \<Rightarrow> nat \<Rightarrow> nat \<Rightarrow> nat \<Rightarrow> nat \<Rightarrow> real"

definition make_classification :: "sampler \<Rightarrow> nat \<Rightarrow> nat \<Rightarrow> int \<Rightarrow> nat \<Rightarrow> ndarray" where
  "make_classification orc n_samples' n_classes' seed c =
     \<lparr>shape = [n_samples', n_features orc],
      data = concat (map (\<lambda>i. map (\<lambda>f. feature orc seed n_samples' n_classes' c i f)
                                 [0..<n_features orc]) [0..<n_samples'])\<rparr>"

section \<open>The stream generator\<close>

text \<open>
  The parameters of the constructor. Counts are natural numbers (numpy refuses a negative
  number of samples or classes); \<open>weights\<close> is unset, a sequence of thresholds, or the
  tuple (number of balance drifts, sigmoid spacing, amplitude).
\<close>

datatype weights = Unset | Static "real list" | Dynamic nat "real option" real

record config =
  n_chunks :: nat
  chunk_size :: nat
  random_state :: int
  n_drifts :: nat
  concept_sigmoid_spacing :: "real option"
  n_classes :: nat
  reocurring :: bool
  weights :: weights

type_synonym chunk = "ndarray \<times> int list"

text \<open>
  The object: its parameters and the attributes \<^verbatim>\<open>get_chunk\<close> sets and reads again,
  \<open>None\<close> while an attribute does not exist (for \<open>previous_chunk\<close> also when it is
  Python's \<open>None\<close>). The number of samples is \<open>n_chunks * chunk_size\<close>, as the
  constructor computes it.
\<close>

record generator =
  params :: config
  concept_selector :: "int list option"
  class_selector :: "int list option"
  attr_X :: "ndarray option"
  attr_y :: "int list option"
  chunk_id :: "int option"
  current_chunk :: "chunk option"
  previous_chunk :: "chunk option"

definition n_samples :: "config \<Rightarrow> nat" where
  "n_samples c = n_chunks c * chunk_size c"

definition StreamGenerator :: "config \<Rightarrow> generator" where
  "StreamGenerator c =
     \<lparr>params = c, concept_selector = None, class_selector = None, attr_X = None,
      attr_y = None, chunk_id = None, current_chunk = None, previous_chunk = None\<rparr>"

definition is_dry :: "generator \<Rightarrow> bool" where
  "is_dry g =
     (case chunk_id g of Some cid \<Rightarrow> cid + 1 \<ge> int (n_chunks (params g)) | None \<Rightarrow> False)"

definition css_of :: "real option \<Rightarrow> real" where
  "css_of sigmoid_spacing = (case sigmoid_spacing of Some s \<Rightarrow> s | None \<Rightarrow> 9999)"

definition sigmoid :: "(real \<Rightarrow> real) \<Rightarrow> config \<Rightarrow> real option \<Rightarrow> nat \<Rightarrow> nat \<times> real list" where
  "sigmoid cdf c sigmoid_spacing n_drifts' =
     (let period = (if n_drifts' > 0 then n_samples c div n_drifts' else n_samples c);
          css = css_of sigmoid_spacing;
          probabilities =
            (if n_drifts' > 0
             then map cdf (concat (map (\<lambda>i. linspace (if i mod 2 \<noteq> 0 then - css else css)
                                                     (if i mod 2 \<noteq> 0 then css else - css) period)
                                   [0..<n_drifts']))
             else replicate (n_samples c) 1)
      in (period, probabilities))"

text \<open>
  The concepts: \<^verbatim>\<open>np.array\<close> of one transposed matrix of features per concept and
  class, an array of shape (concepts, classes, features, samples), or (concepts, 0) when
  there is no class. Concept \<open>i\<close> is sampled with the seed \<open>random_state + i\<close>.
\<close>

definition n_concepts :: "config \<Rightarrow> nat" where
  "n_concepts c = (if \<not> reocurring c then n_drifts c + 1 else 2)"

definition make_concepts :: "sampler \<Rightarrow> config \<Rightarrow> ndarray" where
  "make_concepts orc c =
     \<lparr>shape = (if n_classes c = 0 then [n_concepts c, 0]
               else [n_concepts c, n_classes c, n_features orc, n_chunks c * chunk_size c]),
      data = concat (map (\<lambda>i. concat (map (\<lambda>k. data (np_T (make_classification orc
                                (n_chunks c * chunk_size c) (n_classes c)
                                (random_state c + int i) k)))
                              [0..<n_classes c]))
                     [0..<n_concepts c])\<rparr>"

text \<open>
  The concept selector (run when \<open>n_drifts > 0\<close>): the probabilities are compared with
  fresh noise; without reoccurring drift, the periods after the first are renumbered.
\<close>

definition remap_period :: "nat \<Rightarrow> int list \<Rightarrow> nat \<Rightarrow> int list" where
  "remap_period period sel i =
     (let start = i * period; end = (i + 1) * period;
          sel1 = assign_where sel start end 1 (int (i + ((i + 1) mod 2)))
      in assign_where sel1 start end 0 (int (i + (i mod 2))))"

definition remap :: "nat \<Rightarrow> nat \<Rightarrow> int list \<Rightarrow> int list" where
  "remap period n_drifts' sel = fold (\<lambda>i s. remap_period period s i) [1..<n_drifts'] sel"

definition make_concept_selector ::
    "(real \<Rightarrow> real) \<Rightarrow> config \<Rightarrow> rng \<Rightarrow> (error + int list) \<times> rng" where
  "make_concept_selector cdf c r =
     (let (period, concept_probabilities) =
            sigmoid cdf c (concept_sigmoid_spacing c) (n_drifts c);
          (concept_noise, r') = rand r (n_samples c)
      in case np_less concept_probabilities concept_noise of
           Inl e \<Rightarrow> (Inl e, r')
         | Inr sel \<Rightarrow>
             (Inr (if reocurring c = False then remap period (n_drifts c) sel else sel), r'))"

text \<open>
  The class (balance) selector, in the three modes of \<open>weights\<close>. In the static mode
  the accumulator starts at 0.0 and \<^verbatim>\<open>accumulator += treshold\<close> adds in float64:
  \<open>fadd accumulator treshold\<close>.
\<close>

fun static_balance ::
    "(real \<Rightarrow> real \<Rightarrow> real) \<Rightarrow> real list \<Rightarrow> int list \<Rightarrow> real \<Rightarrow> nat \<Rightarrow> real list
       \<Rightarrow> int list" where
  "static_balance fadd noise sel accumulator i [] = sel"
| "static_balance fadd noise sel accumulator i (treshold # ws) =
     static_balance fadd noise
       (map (\<lambda>j. if noise ! j > accumulator then int i else sel ! j) [0..<length sel])
       (fadd accumulator treshold) (i + 1) ws"

definition make_class_selector ::
    "(real \<Rightarrow> real) \<Rightarrow> (real \<Rightarrow> real \<Rightarrow> real) \<Rightarrow> config \<Rightarrow> real list
       \<Rightarrow> error + int list" where
  "make_class_selector cdf fadd c balance_noise =
     (case weights c of
        Unset \<Rightarrow> Inr (map (\<lambda>x. astype_int (x * real (n_classes c))) balance_noise)
      | Static ws \<Rightarrow>
          Inr (static_balance fadd balance_noise (replicate (length balance_noise) 0) 0 0 ws)
      | Dynamic n_balance_drifts class_sigmoid_spacing balance_amplitude \<Rightarrow>
          (let (period, class_probabilities) = sigmoid cdf c class_sigmoid_spacing n_balance_drifts
           in np_less (map (\<lambda>p. (p - 0.5) * balance_amplitude + 0.5) class_probabilities)
                balance_noise))"

text \<open>
  The features: the concepts chosen by the concept selector where there are drifts (the
  single concept otherwise, its axis squeezed away), then the classes chosen by the class
  selector, transposed.
\<close>

definition assemble :: "generator \<Rightarrow> ndarray \<Rightarrow> int list \<Rightarrow> error + ndarray" where
  "assemble g concepts sel =
     (case (if n_drifts (params g) > 0
            then (case concept_selector g of
                    None \<Rightarrow> Inl AttributeError
                  | Some csel \<Rightarrow> np_choose csel concepts)
            else Inr (np_squeeze concepts)) of
        Inl e \<Rightarrow> Inl e
      | Inr concepts' \<Rightarrow>
          (case np_choose sel concepts' of Inl e \<Rightarrow> Inl e | Inr x \<Rightarrow> Inr (np_T x)))"

text \<open>
  The first call of \<^verbatim>\<open>get_chunk\<close> builds the whole stream: the concepts, the concept
  selector when there are drifts, then (\<open>materialize_balance\<close>) the class selector and the
  features. An exception leaves the object without \<^verbatim>\<open>X\<close>, with the attributes set so
  far, and the noise drawn so far is gone from the global generator.
\<close>

definition materialize_balance ::
    "(real \<Rightarrow> real) \<Rightarrow> (real \<Rightarrow> real \<Rightarrow> real) \<Rightarrow> ndarray \<Rightarrow> generator \<Rightarrow> rng
       \<Rightarrow> (error + unit) \<times> generator \<times> rng" where
  "materialize_balance cdf fadd concepts g r =
     (let (balance_noise, r') = rand r (n_samples (params g))
      in case make_class_selector cdf fadd (params g) balance_noise of
           Inl e \<Rightarrow> (Inl e, g, r')
         | Inr sel \<Rightarrow>
             (let g' = g\<lparr>class_selector := Some sel\<rparr>
              in case assemble g' concepts sel of
                   Inl e \<Rightarrow> (Inl e, g', r')
                 | Inr x \<Rightarrow>
                     (Inr (), g'\<lparr>attr_X := Some x, attr_y := Some sel,
                                 chunk_id := Some (- 1), previous_chunk := None\<rparr>, r')))"

definition materialize ::
    "(real \<Rightarrow> real) \<Rightarrow> (real \<Rightarrow> real \<Rightarrow> real) \<Rightarrow> sampler \<Rightarrow> generator \<Rightarrow> rng
       \<Rightarrow> (error + unit) \<times> generator \<times> rng" where
  "materialize cdf fadd orc g r =
     (let concepts = make_concepts orc (params g)
      in if n_drifts (params g) > 0
         then (case make_concept_selector cdf (params g) r of
                 (Inl e, r') \<Rightarrow> (Inl e, g, r')
               | (Inr csel, r') \<Rightarrow>
                   materialize_balance cdf fadd concepts (g\<lparr>concept_selector := Some csel\<rparr>) r')
         else materialize_balance cdf fadd concepts g r)"

text \<open>
  \<^verbatim>\<open>get_chunk\<close>: materialize on the first call, advance the cursor, and return the
  chunk under the cursor, or \<open>None\<close> past the end. The cursor of a materialized stream
  starts at -1 and only grows, so the slice bounds are never negative.
\<close>

definition get_chunk ::
    "(real \<Rightarrow> real) \<Rightarrow> (real \<Rightarrow> real \<Rightarrow> real) \<Rightarrow> sampler \<Rightarrow> generator \<Rightarrow> rng
       \<Rightarrow> (error + chunk option) \<times> generator \<times> rng" where
  "get_chunk cdf fadd orc g r =
     (case (if attr_X g \<noteq> None
            then (case current_chunk g of
                    None \<Rightarrow> (Inl AttributeError, g, r)
                  | Some ch \<Rightarrow> (Inr (), g\<lparr>previous_chunk := Some ch\<rparr>, r))
            else materialize cdf fadd orc g r) of
        (Inl e, g', r') \<Rightarrow> (Inl e, g', r')
      | (Inr u, g', r') \<Rightarrow>
          (case chunk_id g' of
             None \<Rightarrow> (Inl AttributeError, g', r')
           | Some cid \<Rightarrow>
               (let g'' = g'\<lparr>chunk_id := Some (cid + 1)\<rparr>
                in if cid + 1 < int (n_chunks (params g''))
                   then (let start = chunk_size (params g'') * nat (cid + 1);
                             end = chunk_size (params g'') * nat (cid + 1)
                                     + chunk_size (params g'')
                         in case (attr_X g'', attr_y g'') of
                              (Some x, Some y) \<Rightarrow>
                                (case np_slice x start end of
                                   Inl e \<Rightarrow> (Inl e, g'', r')
                                 | Inr xs \<Rightarrow>
                                     (Inr (Some (xs, slice y start end)),
                                      g''\<lparr>current_chunk := Some (xs, slice y start end)\<rparr>, r'))
                            | _ \<Rightarrow> (Inl AttributeError, g'', r'))
                   else (Inr None, g'', r'))))"

text \<open>The results of \<open>k\<close> calls in a row, with the object and the generator after them.\<close>

fun get_chunks ::
    "(real \<Rightarrow> real) \<Rightarrow> (real \<Rightarrow> real \<Rightarrow> real) \<Rightarrow> sampler \<Rightarrow> nat \<Rightarrow> generator \<Rightarrow> rng
       \<Rightarrow> (error + chunk option) list \<times> generator \<times> rng" where
  "get_chunks cdf fadd orc 0 g r = ([], g, r)"
| "get_chunks cdf fadd orc (Suc k) g r =
     (case get_chunks cdf fadd orc k g r of
        (res, g', r') \<Rightarrow>
          (case get_chunk cdf fadd orc g' r' of (x, g'', r'') \<Rightarrow> (res @ [x], g'', r'')))"

section \<open>Concrete streams\<close>

text \<open>The logistic distribution function, for the concrete streams below.\<close>

definition logistic_cdf :: "real \<Rightarrow> real" where
  "logistic_cdf x = 1 / (1 + exp (- x))"

definition base_config :: config where
  "base_config =
     \<lparr>n_chunks = 2, chunk_size = 3, random_state = 1410, n_drifts = 0,
      concept_sigmoid_spacing = None, n_classes = 2, reocurring = False, weights = Unset\<rparr>"

definition smp :: sampler where
  "smp = \<lparr>n_features = 2,
           feature = (\<lambda>seed n k c i f. real_of_int seed + real (10 * c + f))\<rparr>"

definition rngA :: rng where
  "rngA = (\<lambda>k. if even k then 1 / 4 else 3 / 4)"

text \<open>
  Thresholds that are sums of powers of two, so that float64 adds them without rounding
  and its addition is \<open>(+)\<close> on them.
\<close>

definition static_config :: config where
  "static_config = base_config\<lparr>n_classes := 3, weights := Static [1 / 4, 1 / 2, 1 / 4]\<rparr>"

definition drift_config :: config where
  "drift_config = base_config\<lparr>n_drifts := 2\<rparr>"

definition recurring_config :: config where
  "recurring_config = base_config\<lparr>n_drifts := 2, reocurring := True\<rparr>"

definition odd_drift_config :: config where
  "odd_drift_config = base_config\<lparr>n_chunks := 1, n_drifts := 2\<rparr>"

definition tiny_drift_config :: config where
  "tiny_drift_config = base_config\<lparr>n_chunks := 1, chunk_size := 1, n_drifts := 2\<rparr>"

definition zero_class_config :: config where
  "zero_class_config =
     base_config\<lparr>n_chunks := 1, chunk_size := 1, n_classes := 0, reocurring := True\<rparr>"

definition rngC :: rng where
  "rngC = (\<lambda>k. 1 / (real k + 2))"

section \<open>Runs of the generator\<close>

text \<open>The chunk under cursor \<open>cid\<close> of a materialized stream.\<close>

definition chunk_at :: "generator \<Rightarrow> int \<Rightarrow> chunk option" where
  "chunk_at g cid =
     (case (attr_X g, attr_y g) of
        (Some x, Some y) \<Rightarrow>
          (case np_slice x (chunk_size (params g) * nat cid)
                  (chunk_size (params g) * nat cid + chunk_size (params g)) of
             Inr xs \<Rightarrow> Some (xs, slice y (chunk_size (params g) * nat cid)
                                 (chunk_size (params g) * nat cid + chunk_size (params g)))
           | Inl e \<Rightarrow> None)
      | _ \<Rightarrow> None)"

text \<open>A call is successful when it returns a chunk.\<close>

definition is_chunk :: "error + chunk option \<Rightarrow> bool" where
  "is_chunk x = (case x of Inr (Some ch) \<Rightarrow> True | _ \<Rightarrow> False)"

definition successes :: "(error + chunk option) list \<Rightarrow> nat" where
  "successes res = length (filter is_chunk res)"

text \<open>
  What holds of the object between two calls, after the results \<open>res\<close>: either nothing is
  materialized and no chunk was returned, or the stream is there, the labels are the class
  selector, and the cursor counts the chunks returned.
\<close>

definition stream_inv :: "config \<Rightarrow> (error + chunk option) list \<Rightarrow> generator \<Rightarrow> bool" where
  "stream_inv c res g \<longleftrightarrow>
     params g = c \<and>
     (case attr_X g of
        None \<Rightarrow> chunk_id g = None \<and> current_chunk g = None \<and> successes res = 0
      | Some x \<Rightarrow>
          shape x \<noteq> [] \<and>
          (\<exists>y cid. attr_y g = Some y \<and> class_selector g = Some y \<and> chunk_id g = Some cid \<and>
             0 \<le> cid \<and> successes res = min (nat (cid + 1)) (n_chunks c) \<and>
             (0 < n_chunks c \<longrightarrow> current_chunk g \<noteq> None) \<and>
             (res \<noteq> [] \<and> is_chunk (last res) \<longrightarrow> cid < int (n_chunks c))))"

text \<open>\<^verbatim>\<open>np.random.rand\<close> draws from the interval [0, 1).\<close>

definition unit_rng :: "rng \<Rightarrow> bool" where
  "unit_rng r \<longleftrightarrow> (\<forall>k. 0 \<le> r k \<and> r k < 1)"

text \<open>
  The weights a stream of \<open>n_classes\<close> classes is meant to get: none, one threshold per
  class, or a drifting balance between two classes.
\<close>

definition weights_ok :: "config \<Rightarrow> bool" where
  "weights_ok c =
     (case weights c of
        Unset \<Rightarrow> True
      | Static ws \<Rightarrow> length ws = n_classes c
      | Dynamic n_balance_drifts class_sigmoid_spacing balance_amplitude \<Rightarrow> n_classes c = 2)"

text \<open>What the renumbering of period \<open>i\<close> makes of a selector value.\<close>

definition remapped :: "nat \<Rightarrow> int \<Rightarrow> int" where
  "remapped i v =
     (if v = 1 then int (i + ((i + 1) mod 2)) else if v = 0 then int (i + (i mod 2)) else v)"

section \<open>The drift scheduler\<close>

lemma length_linspace: "length (linspace a b n) = n"
  by (simp add: linspace_def)

lemma linspace_first: "0 < n \<Longrightarrow> linspace a b n ! 0 = a"
  by (simp add: linspace_def)

lemma linspace_last: "1 < n \<Longrightarrow> linspace a b n ! (n - Suc 0) = b"
  by (simp add: linspace_def)

lemma length_concat_blocks:
  "(\<And>k. k < n \<Longrightarrow> length (f k) = p) \<Longrightarrow> length (concat (map f [0..<n])) = n * p"
  by (induction n) auto

lemma take_drop_concat_blocks:
  assumes "\<And>k. k < n \<Longrightarrow> length (f k) = p" and "i < n"
  shows "take p (drop (i * p) (concat (map f [0..<n]))) = f i"
  using assms
proof (induction n arbitrary: i)
  case 0
  then show ?case by simp
next
  case (Suc n)
  have len: "length (concat (map f [0..<n])) = n * p"
    using Suc.prems(1) by (intro length_concat_blocks) simp
  show ?case
  proof (cases "i < n")
    case True
    then have "Suc i \<le> n" by simp
    then have "Suc i * p \<le> n * p" by (rule mult_le_mono1)
    then have "i * p + p \<le> n * p" by (simp add: algebra_simps)
    with True Suc show ?thesis by (simp add: len take_drop)
  next
    case False
    with Suc.prems have "i = n" by simp
    with Suc.prems show ?thesis by (simp add: len)
  qed
qed

lemma sigmoid_length:
  "0 < n \<Longrightarrow> length (snd (sigmoid cdf c s n)) = n * (n_samples c div n)"
  by (simp add: sigmoid_def Let_def length_concat_blocks length_linspace)

lemma sigmoid_period: "0 < n \<Longrightarrow> fst (sigmoid cdf c s n) = n_samples c div n"
  by (simp add: sigmoid_def Let_def)

lemma sigmoid_no_drift: "sigmoid cdf c s 0 = (n_samples c, replicate (n_samples c) 1)"
  by (simp add: sigmoid_def Let_def)

text \<open>
  C9. Without drifts the scheduler returns the whole stream as one period and the
  probability 1 for every sample. With \<open>n > 0\<close> drifts the period is
  \<open>total_samples div n\<close> and there are \<open>n * (total_samples div n)\<close> probabilities:
  \<open>total_samples mod n\<close> fewer than samples, at most \<open>n - 1\<close>, and the scheduler returns
  them as they are.
\<close>

theorem sigmoid_output_shape:
  "sigmoid cdf c s 0 = (n_samples c, replicate (n_samples c) 1) \<and>
   (0 < n \<longrightarrow>
      fst (sigmoid cdf c s n) = n_samples c div n \<and>
      length (snd (sigmoid cdf c s n)) = n * (n_samples c div n) \<and>
      n_samples c - length (snd (sigmoid cdf c s n)) = n_samples c mod n \<and>
      n_samples c mod n \<le> n - 1)"
proof -
  have "n_samples c - n * (n_samples c div n) = n_samples c mod n"
    by (simp add: minus_mult_div_eq_mod)
  moreover have "0 < n \<Longrightarrow> n_samples c mod n \<le> n - 1"
    by (simp add: less_Suc_eq_le [symmetric])
  ultimately show ?thesis
    by (simp add: sigmoid_no_drift sigmoid_period sigmoid_length)
qed

theorem sigmoid_output_shape_witness:
  "(0::nat) < 4 \<and> n_samples base_config = 6 \<and>
   fst (sigmoid logistic_cdf base_config None 4) = 1 \<and>
   length (snd (sigmoid logistic_cdf base_config None 4)) = 4 \<and>
   n_samples base_config - length (snd (sigmoid logistic_cdf base_config None 4)) = 2"
  using sigmoid_output_shape [of logistic_cdf base_config None 4]
  by (simp add: n_samples_def base_config_def)

text \<open>
  C3, as the code has it. Ramp \<open>i\<close> of the scheduler, counted from 0 as the code's loop
  does, is the slice of the probabilities from \<open>i * period\<close>: the distribution function
  applied to \<open>period\<close> evenly spaced values that run from \<open>+s\<close> down to \<open>-s\<close> when \<open>i\<close> is
  even and from \<open>-s\<close> up to \<open>+s\<close> when \<open>i\<close> is odd. So the first ramp falls, and the
  directions alternate from there.
\<close>

theorem sigmoid_ramp_direction:
  assumes "i < n"
  shows "take (n_samples c div n) (drop (i * (n_samples c div n)) (snd (sigmoid cdf c s n)))
           = map cdf (linspace (if even i then css_of s else - css_of s)
                               (if even i then - css_of s else css_of s) (n_samples c div n)) \<and>
         (0 < n_samples c div n \<longrightarrow>
            snd (sigmoid cdf c s n) ! (i * (n_samples c div n))
              = cdf (if even i then css_of s else - css_of s)) \<and>
         (1 < n_samples c div n \<longrightarrow>
            snd (sigmoid cdf c s n) ! (i * (n_samples c div n) + (n_samples c div n - 1))
              = cdf (if even i then - css_of s else css_of s))"
proof -
  let ?p = "n_samples c div n"
  let ?a = "if even i then css_of s else - css_of s"
  let ?b = "if even i then - css_of s else css_of s"
  let ?probs = "snd (sigmoid cdf c s n)"
  let ?f = "\<lambda>i. map cdf (linspace (if i mod 2 \<noteq> 0 then - css_of s else css_of s)
                                  (if i mod 2 \<noteq> 0 then css_of s else - css_of s) ?p)"
  have "?probs = concat (map ?f [0..<n])"
    using assms by (simp add: sigmoid_def Let_def map_concat comp_def)
  moreover have "take ?p (drop (i * ?p) (concat (map ?f [0..<n]))) = ?f i"
    by (rule take_drop_concat_blocks) (simp_all add: length_linspace assms)
  ultimately have block: "take ?p (drop (i * ?p) ?probs) = map cdf (linspace ?a ?b ?p)"
    by (simp add: even_iff_mod_2_eq_zero)
  have nth: "?probs ! (i * ?p + k) = cdf (linspace ?a ?b ?p ! k)" if "k < ?p" for k
  proof -
    have "i * ?p \<le> n * ?p"
      using assms by (intro mult_le_mono1) simp
    then have "i * ?p \<le> length ?probs"
      using assms by (simp add: sigmoid_length)
    then have "take ?p (drop (i * ?p) ?probs) ! k = ?probs ! (i * ?p + k)"
      using that by simp
    with block that show ?thesis by (simp add: length_linspace)
  qed
  have "0 < ?p \<Longrightarrow> ?probs ! (i * ?p) = cdf ?a"
    using nth [of 0] by (simp add: linspace_first)
  moreover have "1 < ?p \<Longrightarrow> ?probs ! (i * ?p + (?p - 1)) = cdf ?b"
    using nth [of "?p - 1"] by (simp add: linspace_last)
  ultimately show ?thesis using block by blast
qed

theorem sigmoid_ramp_direction_witness:
  "(1::nat) < 2 \<and>
   take 3 (drop 3 (snd (sigmoid logistic_cdf base_config (Some 2) 2)))
     = [logistic_cdf (- 2), logistic_cdf 0, logistic_cdf 2]"
  using sigmoid_ramp_direction [of 1 2 base_config logistic_cdf "Some 2"]
  by (simp add: n_samples_def base_config_def css_of_def linspace_def upt_rec)

text \<open>
  C3, as the specification words it, fails on the first ramp: period 0 is even, and it runs from
  \<open>+s\<close> to \<open>-s\<close>, not from \<open>-s\<close> to \<open>+s\<close>.
\<close>

theorem sigmoid_ramp_direction_counterexample:
  "take 3 (drop (0 * 3) (snd (sigmoid logistic_cdf base_config (Some 2) 2)))
     \<noteq> map logistic_cdf (linspace (- 2) 2 3)"
  by (simp add: sigmoid_def n_samples_def base_config_def css_of_def linspace_def upt_rec
        logistic_cdf_def)

section \<open>Evaluating concrete streams\<close>

lemma get_chunks_numeral:
  "get_chunks cdf fadd orc (numeral n) g r =
     (case get_chunks cdf fadd orc (pred_numeral n) g r of
        (res, g', r') \<Rightarrow>
          (case get_chunk cdf fadd orc g' r' of (x, g'', r'') \<Rightarrow> (res @ [x], g'', r'')))"
  by (simp add: numeral_eq_Suc)

lemma get_chunks_1:
  "get_chunks cdf fadd orc 1 g r =
          (case get_chunk cdf fadd orc g r of (x, g'', r'') \<Rightarrow> ([x], g'', r''))"
  by simp

lemmas run_defs = get_chunk_def StreamGenerator_def base_config_def materialize_def materialize_balance_def
     Let_def make_concepts_def n_concepts_def make_classification_def np_T_def rand_def rngA_def smp_def
     make_class_selector_def astype_int_def assemble_def np_squeeze_def np_choose_def broadcast_dim_def bget_def
     np_slice_def slice_def n_samples_def upt_rec successes_def get_chunks_numeral get_chunks_1

section \<open>The chunk cursor\<close>

lemma np_choose_shape: "np_choose a ch = Inr x \<Longrightarrow> shape x \<noteq> []"
  by (auto simp: np_choose_def Let_def split: list.splits option.splits if_splits)

lemma np_T_shape: "shape (np_T a) = rev (shape a)"
  by (simp add: np_T_def)

lemma assemble_shape: "assemble g cs sel = Inr x \<Longrightarrow> shape x \<noteq> []"
  by (auto simp: assemble_def np_T_shape split: sum.splits dest: np_choose_shape)

lemma np_slice_total: "shape x \<noteq> [] \<Longrightarrow> \<exists>xs. np_slice x s e = Inr xs"
  by (cases "shape x") (simp_all add: np_slice_def)

lemma materialize_balance_Inl:
  assumes "materialize_balance cdf fadd cs g r = (Inl e, g', r')"
  shows "params g' = params g \<and> attr_X g' = attr_X g \<and> attr_y g' = attr_y g \<and>
         chunk_id g' = chunk_id g \<and> current_chunk g' = current_chunk g \<and>
         concept_selector g' = concept_selector g \<and>
         r' = snd (rand r (n_samples (params g)))"
  using assms
  by (auto simp: materialize_balance_def Let_def split: prod.splits sum.splits)

lemma materialize_balance_Inr:
  assumes "materialize_balance cdf fadd cs g r = (Inr u, g', r')"
  shows "\<exists>x sel. params g' = params g \<and> attr_X g' = Some x \<and> shape x \<noteq> [] \<and>
           attr_y g' = Some sel \<and> class_selector g' = Some sel \<and>
           chunk_id g' = Some (- 1) \<and> current_chunk g' = current_chunk g \<and>
           concept_selector g' = concept_selector g \<and>
           r' = snd (rand r (n_samples (params g))) \<and>
           make_class_selector cdf fadd (params g) (fst (rand r (n_samples (params g)))) = Inr sel"
  using assms
  by (auto simp: materialize_balance_def Let_def split: prod.splits sum.splits dest: assemble_shape)

lemma materialize_Inl:
  assumes "materialize cdf fadd orc g r = (Inl e, g', r')"
  shows "params g' = params g \<and> attr_X g' = attr_X g \<and> attr_y g' = attr_y g \<and>
         chunk_id g' = chunk_id g \<and> current_chunk g' = current_chunk g"
  using assms
  by (auto simp: materialize_def Let_def split: prod.splits sum.splits if_splits
           dest!: materialize_balance_Inl)

lemma materialize_Inr:
  assumes "materialize cdf fadd orc g r = (Inr u, g', r')"
  shows "\<exists>x sel. params g' = params g \<and> attr_X g' = Some x \<and> shape x \<noteq> [] \<and>
           attr_y g' = Some sel \<and> class_selector g' = Some sel \<and>
           chunk_id g' = Some (- 1) \<and> current_chunk g' = current_chunk g"
  using assms
  by (auto simp: materialize_def Let_def split: prod.splits sum.splits if_splits
           dest!: materialize_balance_Inr)

lemma get_chunk_materialized:
  assumes "attr_X g = Some x" "shape x \<noteq> []" "attr_y g = Some y" "chunk_id g = Some cid"
    "current_chunk g = Some ch"
  shows "get_chunk cdf fadd orc g r =
     (if cid + 1 < int (n_chunks (params g))
      then (Inr (chunk_at g (cid + 1)),
            g\<lparr>previous_chunk := Some ch, chunk_id := Some (cid + 1),
               current_chunk := chunk_at g (cid + 1)\<rparr>, r)
      else (Inr None, g\<lparr>previous_chunk := Some ch, chunk_id := Some (cid + 1)\<rparr>, r))
     \<and> (chunk_at g (cid + 1) \<noteq> None)"
proof -
  obtain xs where "np_slice x (chunk_size (params g) * nat (cid + 1))
      (chunk_size (params g) * nat (cid + 1) + chunk_size (params g)) = Inr xs"
    using np_slice_total [OF assms(2)] by blast
  then show ?thesis using assms
    by (simp add: get_chunk_def chunk_at_def Let_def)
qed

lemma stream_inv_init: "stream_inv c [] (StreamGenerator c)"
  by (simp add: stream_inv_def StreamGenerator_def successes_def)

lemma successes_snoc: "successes (res @ [x]) = successes res + (if is_chunk x then 1 else 0)"
  by (simp add: successes_def)

lemma get_chunk_fresh_Inl:
  assumes "attr_X g = None" "materialize cdf fadd orc g r = (Inl e, g1, r1)"
  shows "get_chunk cdf fadd orc g r = (Inl e, g1, r1)"
  using assms by (simp add: get_chunk_def)

lemma get_chunk_fresh_Inr:
  assumes "attr_X g = None" "materialize cdf fadd orc g r = (Inr u, g1, r1)"
  shows "get_chunk cdf fadd orc g r =
     (if 0 < n_chunks (params g)
      then (Inr (chunk_at g1 0), g1\<lparr>chunk_id := Some 0, current_chunk := chunk_at g1 0\<rparr>, r1)
      else (Inr None, g1\<lparr>chunk_id := Some 0\<rparr>, r1))
     \<and> chunk_at g1 0 \<noteq> None"
proof -
  from materialize_Inr [OF assms(2)] obtain x sel where m:
    "params g1 = params g" "attr_X g1 = Some x" "shape x \<noteq> []" "attr_y g1 = Some sel"
    "chunk_id g1 = Some (- 1)" by blast
  obtain xs where "np_slice x 0 (chunk_size (params g)) = Inr xs"
    using np_slice_total [OF m(3)] by blast
  then show ?thesis using assms m
    by (simp add: get_chunk_def chunk_at_def Let_def)
qed

lemma is_chunk_simps [simp]:
  "is_chunk (Inl e) = False" "is_chunk (Inr None) = False" "is_chunk (Inr (Some ch)) = True"
  by (simp_all add: is_chunk_def)

lemma stream_inv_step:
  assumes inv: "stream_inv c res g" and step: "get_chunk cdf fadd orc g r = (x, g', r')"
  shows "stream_inv c (res @ [x]) g'"
proof (cases "attr_X g")
  case None
  obtain m g1 r1 where mat: "materialize cdf fadd orc g r = (m, g1, r1)"
    by (cases "materialize cdf fadd orc g r") auto
  show ?thesis
  proof (cases m)
    case (Inl e)
    with None mat step get_chunk_fresh_Inl [of g cdf fadd orc r e g1 r1]
    have "x = Inl e" "g' = g1" by simp_all
    moreover note materialize_Inl [OF mat [unfolded Inl]]
    ultimately show ?thesis using inv None
      by (simp add: stream_inv_def successes_snoc)
  next
    case (Inr u)
    from materialize_Inr [OF mat [unfolded Inr]] obtain xa sel where m:
      "params g1 = params g" "attr_X g1 = Some xa" "shape xa \<noteq> []" "attr_y g1 = Some sel"
      "class_selector g1 = Some sel" "chunk_id g1 = Some (- 1)" by blast
    from get_chunk_fresh_Inr [OF None mat [unfolded Inr]] step
    have gc: "(x, g', r') = (if 0 < n_chunks (params g)
      then (Inr (chunk_at g1 0), g1\<lparr>chunk_id := Some 0, current_chunk := chunk_at g1 0\<rparr>, r1)
      else (Inr None, g1\<lparr>chunk_id := Some 0\<rparr>, r1))" and ne: "chunk_at g1 0 \<noteq> None"
      by simp_all
    from ne obtain ch where ch: "chunk_at g1 0 = Some ch" by blast
    show ?thesis using inv None gc m ch
      by (auto simp: stream_inv_def successes_snoc split: if_splits)
  qed
next
  case (Some xa)
  with inv have "\<exists>y cid. shape xa \<noteq> [] \<and> attr_y g = Some y \<and> class_selector g = Some y \<and>
    chunk_id g = Some cid \<and> 0 \<le> cid \<and> successes res = min (nat (cid + 1)) (n_chunks c) \<and>
    (0 < n_chunks c \<longrightarrow> current_chunk g \<noteq> None) \<and> params g = c"
    unfolding stream_inv_def by clarsimp
  then obtain y cid where s: "shape xa \<noteq> []" "attr_y g = Some y" "class_selector g = Some y"
    "chunk_id g = Some cid" "0 \<le> cid" "successes res = min (nat (cid + 1)) (n_chunks c)"
    "0 < n_chunks c \<longrightarrow> current_chunk g \<noteq> None" "params g = c"
    by (elim exE conjE)
  show ?thesis
  proof (cases "current_chunk g")
    case None
    with Some step have "x = Inl AttributeError" "g' = g" by (simp_all add: get_chunk_def)
    with inv None Some s show ?thesis by (auto simp: stream_inv_def successes_snoc)
  next
    case (Some ch)
    from get_chunk_materialized [OF \<open>attr_X g = Some xa\<close> s(1) s(2) s(4) Some, of cdf fadd orc r] step
    have gc: "(x, g', r') = (if cid + 1 < int (n_chunks (params g))
      then (Inr (chunk_at g (cid + 1)),
            g\<lparr>previous_chunk := Some ch, chunk_id := Some (cid + 1),
               current_chunk := chunk_at g (cid + 1)\<rparr>, r)
      else (Inr None, g\<lparr>previous_chunk := Some ch, chunk_id := Some (cid + 1)\<rparr>, r))"
      and ne: "chunk_at g (cid + 1) \<noteq> None" by simp_all
    from ne obtain ch' where ch': "chunk_at g (cid + 1) = Some ch'" by blast
    show ?thesis using gc s ch' \<open>attr_X g = Some xa\<close> Some
      by (auto simp: stream_inv_def successes_snoc split: if_splits)
  qed
qed

lemma get_chunks_inv:
  "get_chunks cdf fadd orc k (StreamGenerator c) r = (res, g, r') \<Longrightarrow> stream_inv c res g \<and> length res = k"
proof (induction k arbitrary: res g r')
  case 0
  then show ?case by (auto simp: stream_inv_init)
next
  case (Suc k)
  obtain res0 g0 r0 where p: "get_chunks cdf fadd orc k (StreamGenerator c) r = (res0, g0, r0)"
    by (cases "get_chunks cdf fadd orc k (StreamGenerator c) r") auto
  obtain x g1 r1 where q: "get_chunk cdf fadd orc g0 r0 = (x, g1, r1)"
    by (cases "get_chunk cdf fadd orc g0 r0") auto
  from Suc.prems p q have "res = res0 @ [x]" "g = g1" by simp_all
  with Suc.IH [OF p] stream_inv_step [OF _ q] show ?case by simp
qed

lemma exhausted_step:
  assumes "stream_inv c res g" "successes res = n_chunks c" "0 < n_chunks c"
  shows "fst (get_chunk cdf fadd orc g r) = Inr None"
proof -
  from assms obtain x where x: "attr_X g = Some x"
    by (cases "attr_X g") (auto simp: stream_inv_def)
  with assms(1) have "\<exists>y cid. shape x \<noteq> [] \<and> attr_y g = Some y \<and> chunk_id g = Some cid \<and>
      0 \<le> cid \<and> successes res = min (nat (cid + 1)) (n_chunks c) \<and>
      (0 < n_chunks c \<longrightarrow> current_chunk g \<noteq> None) \<and> params g = c"
    unfolding stream_inv_def by clarsimp
  then obtain y cid where s: "shape x \<noteq> []" "attr_y g = Some y" "chunk_id g = Some cid"
      "0 \<le> cid" "successes res = min (nat (cid + 1)) (n_chunks c)"
      "0 < n_chunks c \<longrightarrow> current_chunk g \<noteq> None" "params g = c"
    by (elim exE conjE)
  from s(6) assms(3) obtain ch where ch: "current_chunk g = Some ch" by auto
  have "\<not> cid + 1 < int (n_chunks c)" using s(4,5) assms(2) by linarith
  with get_chunk_materialized [OF x s(1) s(2) s(3) ch, of cdf fadd orc r] s(7)
  show ?thesis by simp
qed

text \<open>
  C4. On a configuration with at least one chunk, once \<open>n_chunks\<close> calls have returned
  a chunk, every further call returns \<open>None\<close>, however many follow.
\<close>

theorem stream_exhaustion:
  assumes "successes (fst (get_chunks cdf fadd orc k (StreamGenerator c) r)) = n_chunks c"
    and "0 < n_chunks c"
  shows "fst (get_chunks cdf fadd orc (k + m) (StreamGenerator c) r)
           = fst (get_chunks cdf fadd orc k (StreamGenerator c) r) @ replicate m (Inr None)"
proof (induction m)
  case 0
  show ?case by simp
next
  case (Suc m)
  obtain res g r' where p: "get_chunks cdf fadd orc (k + m) (StreamGenerator c) r = (res, g, r')"
    by (cases "get_chunks cdf fadd orc (k + m) (StreamGenerator c) r") auto
  with Suc have res: "res = fst (get_chunks cdf fadd orc k (StreamGenerator c) r) @ replicate m (Inr None)"
    by simp
  then have "successes res = n_chunks c"
    using assms(1) by (simp add: successes_def)
  with get_chunks_inv [OF p] assms(2) have "fst (get_chunk cdf fadd orc g r') = Inr None"
    by (intro exhausted_step) auto
  moreover have "replicate m (Inr None) @ [Inr None] = replicate (Suc m) (Inr None :: error + chunk option)"
    by (simp add: replicate_append_same)
  ultimately show ?case using p res
    by (auto simp del: replicate.simps split: prod.splits)
qed

theorem stream_exhaustion_witness:
  "successes (fst (get_chunks logistic_cdf (+) smp 2 (StreamGenerator base_config) rngA)) = n_chunks base_config \<and>
   0 < n_chunks base_config \<and>
   fst (get_chunks logistic_cdf (+) smp (2 + 3) (StreamGenerator base_config) rngA)
     = fst (get_chunks logistic_cdf (+) smp 2 (StreamGenerator base_config) rngA) @ [Inr None, Inr None, Inr None]"
proof -
  have h: "successes (fst (get_chunks logistic_cdf (+) smp 2 (StreamGenerator base_config) rngA)) = n_chunks base_config"
    by (simp add: run_defs)
  have h2: "0 < n_chunks base_config" by (simp add: base_config_def)
  from stream_exhaustion [OF h h2, of 3] h h2 show ?thesis by (simp add: numeral_3_eq_3)
qed

text \<open>
  C5. \<open>is_dry\<close> is false on a new generator. Right after the \<open>k\<close>-th successful call the
  cursor is \<open>k - 1\<close> and \<open>is_dry\<close> holds exactly if \<open>chunk_id + 1 \<ge> n_chunks\<close>; on a
  stream of at least one chunk, at any moment, it holds exactly if \<open>n_chunks\<close> chunks
  have been returned.
\<close>

theorem is_dry_contract:
  "\<not> is_dry (StreamGenerator c) \<and>
   (get_chunks cdf fadd orc k (StreamGenerator c) r = (res, g, r') \<longrightarrow>
      (res \<noteq> [] \<and> is_chunk (last res) \<longrightarrow>
         chunk_id g = Some (int (successes res) - 1) \<and>
         is_dry g = (int (n_chunks c) \<le> (int (successes res) - 1) + 1)) \<and>
      (0 < n_chunks c \<longrightarrow> is_dry g = (successes res = n_chunks c)))"
proof (intro conjI impI)
  show "\<not> is_dry (StreamGenerator c)" by (simp add: is_dry_def StreamGenerator_def)
next
  assume "get_chunks cdf fadd orc k (StreamGenerator c) r = (res, g, r')"
  then have inv: "stream_inv c res g" using get_chunks_inv by blast
  {
    assume "res \<noteq> [] \<and> is_chunk (last res)"
    with inv show "chunk_id g = Some (int (successes res) - 1)"
      by (cases "attr_X g") (auto simp: stream_inv_def successes_def filter_empty_conv dest: last_in_set)
    with inv show "is_dry g = (int (n_chunks c) \<le> (int (successes res) - 1) + 1)"
      by (simp add: is_dry_def stream_inv_def)
  }
  {
    assume "0 < n_chunks c"
    with inv show "is_dry g = (successes res = n_chunks c)"
      by (cases "attr_X g") (auto simp: stream_inv_def is_dry_def)
  }
qed

theorem is_dry_contract_witness:
  "get_chunks logistic_cdf (+) smp 2 (StreamGenerator base_config) rngA
     = (fst (get_chunks logistic_cdf (+) smp 2 (StreamGenerator base_config) rngA),
        fst (snd (get_chunks logistic_cdf (+) smp 2 (StreamGenerator base_config) rngA)),
        snd (snd (get_chunks logistic_cdf (+) smp 2 (StreamGenerator base_config) rngA))) \<and>
   fst (get_chunks logistic_cdf (+) smp 2 (StreamGenerator base_config) rngA) \<noteq> [] \<and>
   is_chunk (last (fst (get_chunks logistic_cdf (+) smp 2 (StreamGenerator base_config) rngA))) \<and>
   0 < n_chunks base_config \<and>
   chunk_id (fst (snd (get_chunks logistic_cdf (+) smp 2 (StreamGenerator base_config) rngA))) = Some 1 \<and>
   is_dry (fst (snd (get_chunks logistic_cdf (+) smp 2 (StreamGenerator base_config) rngA))) \<and>
   \<not> is_dry (fst (snd (get_chunks logistic_cdf (+) smp 1 (StreamGenerator base_config) rngA)))"
proof -
  let ?run = "\<lambda>k. get_chunks logistic_cdf (+) smp k (StreamGenerator base_config) rngA"
  have s2: "successes (fst (?run 2)) = 2" and l2: "is_chunk (last (fst (?run 2)))"
    and n2: "fst (?run 2) \<noteq> []"
    by (simp_all add: run_defs)
  have s1: "successes (fst (?run 1)) = 1" by (simp add: run_defs)
  have n: "n_chunks base_config = 2" by (simp add: base_config_def)
  from is_dry_contract [of base_config logistic_cdf "(+)" smp 2 rngA "fst (?run 2)" "fst (snd (?run 2))" "snd (snd (?run 2))"]
       is_dry_contract [of base_config logistic_cdf "(+)" smp 1 rngA "fst (?run 1)" "fst (snd (?run 1))" "snd (snd (?run 1))"]
       s2 l2 n2 s1 n
  show ?thesis by simp
qed

section \<open>The class selector\<close>

lemma length_static_balance:
  "length (static_balance fadd noise sel acc i ws) = length sel"
  by (induction ws arbitrary: sel acc i) simp_all

text \<open>
  After the thresholds before \<open>k\<close> the accumulator holds \<open>foldl fadd acc (take k ws)\<close>.
  An entry keeps its value if the noise exceeds none of these sums, and otherwise holds
  the index of the last one it exceeds.
\<close>

lemma static_balance_nth:
  assumes "j < length sel"
  shows "((\<forall>k<length ws. \<not> noise ! j > foldl fadd acc (take k ws))
            \<longrightarrow> static_balance fadd noise sel acc i ws ! j = sel ! j) \<and>
         (\<forall>k<length ws. noise ! j > foldl fadd acc (take k ws) \<longrightarrow>
            (\<exists>m. k \<le> m \<and> m < length ws \<and> noise ! j > foldl fadd acc (take m ws) \<and>
                 static_balance fadd noise sel acc i ws ! j = int (i + m)))"
  using assms
proof (induction ws arbitrary: sel acc i)
  case Nil
  then show ?case by simp
next
  case (Cons t ws)
  let ?sel = "map (\<lambda>j. if noise ! j > acc then int i else sel ! j) [0..<length sel]"
  let ?acc = "fadd acc t"
  have j': "j < length ?sel" using Cons.prems by simp
  note IH = Cons.IH [OF j', where acc="?acc" and i="i + 1"]
  have step: "static_balance fadd noise sel acc i (t # ws)
      = static_balance fadd noise ?sel ?acc (i + 1) ws"
    by simp
  have selj: "?sel ! j = (if noise ! j > acc then int i else sel ! j)"
    using Cons.prems by simp
  show ?case
  proof (intro conjI allI impI)
    assume none: "\<forall>k<length (t # ws). \<not> foldl fadd acc (take k (t # ws)) < noise ! j"
    then have "\<not> acc < noise ! j" by (auto dest: spec [of _ 0])
    moreover have "\<forall>k<length ws. \<not> foldl fadd ?acc (take k ws) < noise ! j"
    proof (intro allI impI)
      fix k assume "k < length ws"
      then have "Suc k < length (t # ws)" by simp
      with none have "\<not> foldl fadd acc (take (Suc k) (t # ws)) < noise ! j" by blast
      then show "\<not> foldl fadd ?acc (take k ws) < noise ! j" by simp
    qed
    ultimately show "static_balance fadd noise sel acc i (t # ws) ! j = sel ! j"
      using IH selj by (simp del: static_balance.simps add: step)
  next
    fix k
    assume k: "k < length (t # ws)" and gt: "foldl fadd acc (take k (t # ws)) < noise ! j"
    show "\<exists>m\<ge>k. m < length (t # ws) \<and> foldl fadd acc (take m (t # ws)) < noise ! j \<and>
              static_balance fadd noise sel acc i (t # ws) ! j = int (i + m)"
    proof (cases "\<exists>k'<length ws. foldl fadd ?acc (take k' ws) < noise ! j")
      case True
      then obtain k' where k': "k' < length ws" "foldl fadd ?acc (take k' ws) < noise ! j"
        by blast
      define k0 where "k0 = (if k = 0 then k' else k - 1)"
      have "k0 < length ws \<and> foldl fadd ?acc (take k0 ws) < noise ! j"
      proof (cases k)
        case 0
        then show ?thesis using k' by (simp add: k0_def)
      next
        case (Suc n)
        then show ?thesis using k gt by (simp add: k0_def)
      qed
      with IH obtain m where m: "k0 \<le> m" "m < length ws"
        "foldl fadd ?acc (take m ws) < noise ! j"
        "static_balance fadd noise ?sel ?acc (i + 1) ws ! j = int (i + 1 + m)" by blast
      have "k \<le> Suc m" using m(1) by (auto simp: k0_def split: if_splits)
      moreover have "Suc m < length (t # ws)" using m(2) by simp
      moreover have "foldl fadd acc (take (Suc m) (t # ws)) < noise ! j" using m(3) by simp
      moreover have "static_balance fadd noise sel acc i (t # ws) ! j = int (i + Suc m)"
        using m(4) by (simp del: static_balance.simps add: step)
      ultimately show ?thesis by blast
    next
      case False
      then have none: "\<forall>k'<length ws. \<not> foldl fadd ?acc (take k' ws) < noise ! j" by blast
      have k0: "k = 0"
      proof (rule ccontr)
        assume "k \<noteq> 0"
        then obtain n where "k = Suc n" by (cases k) auto
        with k gt none show False by auto
      qed
      with gt have "acc < noise ! j" by simp
      with IH none selj have "static_balance fadd noise sel acc i (t # ws) ! j = int i"
        by (simp del: static_balance.simps add: step)
      with k0 gt show ?thesis by (intro exI [of _ 0]) simp
    qed
  qed
qed

text \<open>
  Where float64 rounds the sum of the first two thresholds up to the noise of a sample,
  the sample is not above it and stays in class 1: with the thresholds 0.1, 0.2, 0.7
  the sum is 0.30000000000000004, and a noise of that value gives class 1.
\<close>

lemma static_balance_rounded_sum:
  assumes "fadd 0 w0 = w0" and "fadd w0 w1 = s" and "w0 < x" and "\<not> s < x"
  shows "static_balance fadd [x] [0] 0 0 [w0, w1, w2] = [1]"
  using assms by simp

text \<open>
  C7. With a sequence of thresholds as weights, sample \<open>j\<close> gets the largest class index
  \<open>i\<close> whose cumulative threshold lies below the noise of the sample, and class 0 when
  there is none. The cumulative threshold of class \<open>i\<close> is the sum of the weights before
  \<open>i\<close> as the code accumulates it: from 0.0, left to right, with the addition of float64.
\<close>

theorem static_weights_largest_class:
  assumes "weights c = Static ws" and "j < length balance_noise"
  shows "\<exists>sel. make_class_selector cdf fadd c balance_noise = Inr sel \<and>
           length sel = length balance_noise \<and>
           sel ! j = int (Max (insert 0 {i. i < length ws \<and>
                                          foldl fadd 0 (take i ws) < balance_noise ! j}))"
proof -
  let ?S = "{i. i < length ws \<and> foldl fadd 0 (take i ws) < balance_noise ! j}"
  let ?sel = "static_balance fadd balance_noise (replicate (length balance_noise) 0) 0 0 ws"
  have sel: "make_class_selector cdf fadd c balance_noise = Inr ?sel"
    using assms(1) by (simp add: make_class_selector_def)
  have j: "j < length (replicate (length balance_noise) (0::int))" using assms(2) by simp
  note L = static_balance_nth [OF j, where ws=ws and noise=balance_noise and acc=0 and i=0
      and fadd=fadd]
  have "?sel ! j = int (Max (insert 0 ?S))"
  proof (cases "?S = {}")
    case True
    then have "\<forall>k<length ws. \<not> balance_noise ! j > foldl fadd 0 (take k ws)" by auto
    with L have "?sel ! j = 0" using assms(2) by simp
    moreover have "insert 0 ?S = {0}" using True by blast
    ultimately show ?thesis by (simp only: Max_singleton)
  next
    case False
    then obtain k where "k \<in> ?S" by blast
    with L obtain m where m: "m \<in> ?S" "?sel ! j = int m" by auto
    have "\<forall>k\<in>?S. k \<le> m"
    proof
      fix k assume "k \<in> ?S"
      with L obtain m' where "k \<le> m'" "?sel ! j = int m'" by auto
      with m show "k \<le> m" by simp
    qed
    then have "Max (insert 0 ?S) = m"
      using m(1) by (intro Max_eqI) auto
    with m show ?thesis by simp
  qed
  with sel show ?thesis by (simp add: length_static_balance)
qed

theorem static_weights_largest_class_witness:
  "weights static_config = Static [1 / 4, 1 / 2, 1 / 4] \<and>
   (2::nat) < length [1 / 8, 1 / 2, 7 / 8 :: real] \<and>
   make_class_selector logistic_cdf (+) static_config [1 / 8, 1 / 2, 7 / 8] = Inr [0, 1, 2] \<and>
   Max (insert 0 {i. i < length [1 / 4, 1 / 2, 1 / 4 :: real] \<and>
                     foldl (+) 0 (take i [1 / 4, 1 / 2, 1 / 4]) < [1 / 8, 1 / 2, 7 / 8 :: real] ! 2})
     = 2"
proof -
  have w: "weights static_config = Static [1 / 4, 1 / 2, 1 / 4]"
    by (simp add: static_config_def base_config_def)
  have j: "(2::nat) < length [1 / 8, 1 / 2, 7 / 8 :: real]" by simp
  have e: "make_class_selector logistic_cdf (+) static_config [1 / 8, 1 / 2, 7 / 8] = Inr [0, 1, 2]"
    by (simp add: make_class_selector_def static_config_def base_config_def upt_rec)
  from static_weights_largest_class [OF w j, of logistic_cdf "(+)"] w j e show ?thesis
    by auto
qed

section \<open>The concept selector\<close>

lemma in_period_iff:
  "(0::nat) < p \<Longrightarrow> (i * p \<le> j \<and> j < (i + 1) * p) \<longleftrightarrow> j div p = i"
  using less_eq_div_iff_mult_less_eq [of p i j] div_less_iff_less_mult [of p j "i + 1"]
  by auto

lemma length_assign_where [simp]: "length (assign_where sel s e x v) = length sel"
  by (simp add: assign_where_def)

lemma assign_where_nth:
  "j < length sel \<Longrightarrow>
     assign_where sel s e x v ! j = (if s \<le> j \<and> j < e \<and> sel ! j = x then v else sel ! j)"
  by (simp add: assign_where_def)

lemma length_remap_period [simp]: "length (remap_period period sel i) = length sel"
  by (simp add: remap_period_def assign_where_def Let_def)

lemma remap_period_nth:
  assumes "j < length sel"
  shows "remap_period period sel i ! j
       = (if 0 < period \<and> j div period = i then remapped i (sel ! j) else sel ! j)"
proof -
  define v1 where "v1 = int (i + ((i + 1) mod 2))"
  define v0 where "v0 = int (i + (i mod 2))"
  have nz: "v1 \<noteq> 0" unfolding v1_def by (cases i) simp_all
  have r: "remap_period period sel i
      = assign_where (assign_where sel (i * period) ((i + 1) * period) 1 v1)
          (i * period) ((i + 1) * period) 0 v0"
    by (simp add: remap_period_def Let_def v1_def v0_def)
  have m: "remapped i (sel ! j) = (if sel ! j = 1 then v1 else if sel ! j = 0 then v0 else sel ! j)"
    by (simp add: remapped_def v1_def v0_def)
  show ?thesis
  proof (cases "0 < period")
    case True
    from in_period_iff [OF True, of i j] nz assms show ?thesis
      unfolding r m by (auto simp: assign_where_nth)
  next
    case False
    with assms show ?thesis unfolding r by (simp add: assign_where_nth)
  qed
qed

lemma length_fold_remap [simp]:
  "length (fold (\<lambda>i s. remap_period period s i) is sel) = length sel"
  by (induction "is" arbitrary: sel) simp_all

lemma fold_remap_nth:
  assumes "distinct is" "j < length sel"
  shows "fold (\<lambda>i s. remap_period period s i) is sel ! j
       = (if 0 < period \<and> j div period \<in> set is then remapped (j div period) (sel ! j) else sel ! j)"
  using assms
proof (induction "is" arbitrary: sel)
  case Nil
  then show ?case by simp
next
  case (Cons i "is")
  then have "j < length (remap_period period sel i)" by simp
  with Cons have "fold (\<lambda>i s. remap_period period s i) is (remap_period period sel i) ! j
      = (if 0 < period \<and> j div period \<in> set is
         then remapped (j div period) (remap_period period sel i ! j)
         else remap_period period sel i ! j)" by simp
  with Cons.prems show ?case
    by (auto simp: remap_period_nth)
qed

lemma remap_nth:
  assumes "j < length sel"
  shows "remap period n sel ! j
       = (if 0 < period \<and> 1 \<le> j div period \<and> j div period < n
          then remapped (j div period) (sel ! j) else sel ! j)"
  using fold_remap_nth [of "[1..<n]" j sel period] assms
  by (auto simp: remap_def)

lemma length_remap [simp]: "length (remap period n sel) = length sel"
  by (simp add: remap_def)

lemma np_less_Inr:
  assumes "np_less xs ys = Inr sel"
  shows "broadcast_dim (length xs) (length ys) = Some (length sel) \<and>
         (\<forall>j<length sel. sel ! j = (if bget xs j < bget ys j then 1 else 0))"
  using assms by (auto simp: np_less_def split: option.splits)

lemma length_rand [simp]: "length (fst (rand r n)) = n"
  by (simp add: rand_def)

lemma make_concept_selector_Inr:
  assumes "make_concept_selector cdf c r = (Inr sel, r')"
  shows "\<exists>b. np_less (snd (sigmoid cdf c (concept_sigmoid_spacing c) (n_drifts c)))
                (fst (rand r (n_samples c))) = Inr b \<and>
             sel = (if reocurring c then b
                    else remap (fst (sigmoid cdf c (concept_sigmoid_spacing c) (n_drifts c)))
                           (n_drifts c) b) \<and> r' = snd (rand r (n_samples c))"
  using assms
  by (auto simp: make_concept_selector_def Let_def split: prod.splits sum.splits)

lemma logistic_cdf_0: "logistic_cdf 0 = 1 / 2"
  by (simp add: logistic_cdf_def)

lemma logistic_cdf_high:
  assumes "3 \<le> x"
  shows "3 / 4 < logistic_cdf x"
proof -
  have "1 + x \<le> exp x" by (rule exp_ge_add_one_self)
  then have "4 \<le> exp x" using assms by linarith
  then have "exp (- x) \<le> 1 / 4"
    by (simp add: exp_minus field_simps)
  moreover define e where "e = exp (- x)"
  ultimately have e: "e \<le> 1 / 4" "0 < e" by simp_all
  then have "3 / 4 * (1 + e) < 1" "0 < 1 + e" by simp_all
  then have "3 / 4 < 1 / (1 + e)" by (simp add: pos_less_divide_eq)
  then show ?thesis by (simp add: logistic_cdf_def e_def)
qed

lemma logistic_cdf_low:
  assumes "3 \<le> x"
  shows "logistic_cdf (- x) < 1 / 4"
proof -
  have "1 + x \<le> exp x" by (rule exp_ge_add_one_self)
  then have "4 \<le> exp x" using assms by linarith
  then have "4 < 1 + exp x" by linarith
  moreover have "0 < 1 + exp x" by (simp add: add_pos_pos)
  ultimately show ?thesis
    unfolding logistic_cdf_def by (simp add: pos_divide_less_eq)
qed

lemma logistic_at_default_spacing:
  "\<not> logistic_cdf 9999 * 4 < 1" "\<not> logistic_cdf 9999 * 4 < 3"
  "logistic_cdf (- 9999) * 4 < 1" "logistic_cdf (- 9999) * 4 < 3"
  using logistic_cdf_high [of 9999] logistic_cdf_low [of 9999] by simp_all

lemma drift_probs:
  "sigmoid logistic_cdf drift_config None 2 = (3, [logistic_cdf 9999, 1 / 2, logistic_cdf (- 9999), logistic_cdf (- 9999), 1 / 2, logistic_cdf 9999])"
  by (simp add: drift_config_def base_config_def sigmoid_def css_of_def
        n_samples_def linspace_def Let_def upt_rec logistic_cdf_0)

lemma recurring_probs:
  "sigmoid logistic_cdf recurring_config None 2 = (3, [logistic_cdf 9999, 1 / 2, logistic_cdf (- 9999), logistic_cdf (- 9999), 1 / 2, logistic_cdf 9999])"
  by (simp add: recurring_config_def base_config_def sigmoid_def css_of_def
        n_samples_def linspace_def Let_def upt_rec logistic_cdf_0)

lemma drift_less: "np_less [logistic_cdf 9999, 1 / 2, logistic_cdf (- 9999), logistic_cdf (- 9999), 1 / 2, logistic_cdf 9999]
   [1 / 4, 3 / 4, 1 / 4, 3 / 4, 1 / 4, 3 / 4] = Inr [0, 1, 1, 1, 0, 0]"
  by (simp add: np_less_def broadcast_dim_def bget_def upt_rec logistic_at_default_spacing)

lemma drift_remap: "remap 3 2 [0, 1, 1, 1, 0, 0] = [0, 1, 1, 1, 2, 2]"
  by code_simp

lemma rand6: "rand rngA 6 = ([1 / 4, 3 / 4, 1 / 4, 3 / 4, 1 / 4, 3 / 4], \<lambda>k. rngA (k + 6))"
  by (simp add: rand_def rngA_def upt_rec)

lemma drift_selector:
  "make_concept_selector logistic_cdf drift_config rngA = (Inr [0, 1, 1, 1, 2, 2], \<lambda>k. rngA (k + 6))"
proof -
  have "n_samples drift_config = 6" "n_drifts drift_config = 2" "concept_sigmoid_spacing drift_config = None"
    "reocurring drift_config = False"
    by (simp_all add: drift_config_def base_config_def n_samples_def)
  then show ?thesis
    by (simp add: make_concept_selector_def drift_probs rand6 drift_less drift_remap)
qed

lemma recurring_selector:
  "make_concept_selector logistic_cdf recurring_config rngA = (Inr [0, 1, 1, 1, 0, 0], \<lambda>k. rngA (k + 6))"
proof -
  have "n_samples recurring_config = 6" "n_drifts recurring_config = 2" "concept_sigmoid_spacing recurring_config = None"
    "reocurring recurring_config = True"
    by (simp_all add: recurring_config_def base_config_def n_samples_def)
  then show ?thesis
    by (simp add: make_concept_selector_def recurring_probs rand6 drift_less)
qed

text \<open>
  C2. With drifts, wherever the concept selector has an entry \<open>j\<close>, the probabilities and
  the noise have one too, and the entry is 1 or 0 as the probability lies below the noise
  or not; without reoccurring drift, in the periods \<open>i = j div period\<close> from 1 on, a 1
  has become \<open>i + ((i + 1) mod 2)\<close> and a 0 has become \<open>i + (i mod 2)\<close>. Every entry
  lies between 0 and \<open>n_drifts\<close>.
\<close>

theorem concept_selector_computation:
  assumes "0 < n_drifts c" and "make_concept_selector cdf c r = (Inr sel, r')"
    and "j < length sel"
  shows "j < n_drifts c * (n_samples c div n_drifts c) \<and> length sel = n_samples c \<and>
         sel ! j =
           (let probability = snd (sigmoid cdf c (concept_sigmoid_spacing c) (n_drifts c));
                noise = fst (rand r (n_samples c));
                selected = (if probability ! j < noise ! j then 1 else 0);
                i = j div (n_samples c div n_drifts c)
            in if reocurring c \<or> i = 0 then selected
               else if selected = 1 then int (i + ((i + 1) mod 2))
               else int (i + (i mod 2))) \<and>
         0 \<le> sel ! j \<and> sel ! j \<le> int (n_drifts c)"
proof -
  let ?n = "n_drifts c" and ?N = "n_samples c"
  let ?p = "?N div ?n"
  let ?probs = "snd (sigmoid cdf c (concept_sigmoid_spacing c) ?n)"
  let ?noise = "fst (rand r ?N)"
  from make_concept_selector_Inr [OF assms(2)] obtain b where
    b: "np_less ?probs ?noise = Inr b"
    and sel: "sel = (if reocurring c then b else remap (fst (sigmoid cdf c (concept_sigmoid_spacing c) ?n)) ?n b)"
    by blast
  have lenp: "length ?probs = ?n * ?p" using assms(1) by (rule sigmoid_length)
  have per: "fst (sigmoid cdf c (concept_sigmoid_spacing c) ?n) = ?p" using assms(1) by (rule sigmoid_period)
  have lens: "length sel = length b" using sel by simp
  from np_less_Inr [OF b] have bc: "broadcast_dim (?n * ?p) ?N = Some (length b)"
    and bv: "\<forall>j<length b. b ! j = (if bget ?probs j < bget ?noise j then 1 else 0)"
    by (simp_all add: lenp)
  have jb: "j < length b" using assms(3) lens by simp
  have np_le: "?n * ?p \<le> ?N" by simp
  define L where "L = ?n * ?p"
  have bcL: "broadcast_dim L ?N = Some (length b)" using bc by (simp add: L_def)
  have "L = ?N \<and> length b = ?N"
  proof (cases "L = ?N")
    case True
    with bcL show ?thesis by (simp add: broadcast_dim_def)
  next
    case False
    with bcL jb have "L = 1 \<or> ?N = 1" by (auto simp: broadcast_dim_def split: if_splits)
    then show ?thesis
    proof
      assume "L = 1"
      then have "?n = 1" by (simp add: L_def)
      with False show ?thesis by (simp add: L_def)
    next
      assume N1: "?N = 1"
      have "L \<le> ?N" unfolding L_def by (rule np_le)
      with False N1 have z: "L = 0" by linarith
      from bcL z N1 have "length b = 0" by (simp add: broadcast_dim_def)
      with jb show ?thesis by simp
    qed
  qed
  then have eq: "?n * ?p = ?N \<and> length b = ?N" by (simp add: L_def)
  then have jN: "j < ?N" and jnp: "j < ?n * ?p" using jb by simp_all
  have ppos: "0 < ?p" using jnp by (cases "?p = 0") simp_all
  have idiv: "j div ?p < ?n" using jnp ppos by (simp add: less_mult_imp_div_less mult.commute)
  have bg: "bget ?probs j = ?probs ! j" "bget ?noise j = ?noise ! j"
    using jN jnp lenp by (auto simp: bget_def)
  have bj: "b ! j = (if ?probs ! j < ?noise ! j then 1 else 0)" using bv jb bg by simp
  have selj: "sel ! j = (if reocurring c \<or> j div ?p = 0 then b ! j else remapped (j div ?p) (b ! j))"
    using sel jb per ppos idiv by (auto simp: remap_nth)
  have val: "sel ! j = (if reocurring c \<or> j div ?p = 0 then b ! j
        else if b ! j = 1 then int (j div ?p + ((j div ?p + 1) mod 2)) else int (j div ?p + (j div ?p mod 2)))"
    using selj bj by (auto simp: remapped_def)
  have rng: "0 \<le> sel ! j \<and> sel ! j \<le> int ?n"
  proof -
    have "(j div ?p + 1) mod 2 \<le> 1" "j div ?p mod 2 \<le> 1" by simp_all
    then have "j div ?p + ((j div ?p + 1) mod 2) \<le> ?n" "j div ?p + (j div ?p mod 2) \<le> ?n"
      using idiv by linarith+
    then show ?thesis using val bj assms(1) by (auto split: if_splits)
  qed
  show ?thesis using jnp eq lens val bj rng by (simp add: Let_def)
qed

theorem concept_selector_computation_witness:
  "0 < n_drifts drift_config \<and>
   make_concept_selector logistic_cdf drift_config rngA = (Inr [0, 1, 1, 1, 2, 2], \<lambda>k. rngA (k + 6)) \<and>
   (4::nat) < length [0, 1, 1, 1, 2, 2 :: int] \<and>
   4 div (n_samples drift_config div n_drifts drift_config) = (1::nat) \<and>
   \<not> snd (sigmoid logistic_cdf drift_config (concept_sigmoid_spacing drift_config) (n_drifts drift_config)) ! 4
       < fst (rand rngA (n_samples drift_config)) ! 4 \<and>
   [0, 1, 1, 1, 2, 2 :: int] ! 4 = int (1 + (1 mod 2))"
proof -
  have n: "0 < n_drifts drift_config" by (simp add: drift_config_def base_config_def)
  have j: "(4::nat) < length [0, 1, 1, 1, 2, 2 :: int]" by simp
  have v: "n_samples drift_config = 6" "n_drifts drift_config = 2"
    "concept_sigmoid_spacing drift_config = None" "reocurring drift_config = False"
    by (simp_all add: drift_config_def base_config_def n_samples_def)
  from concept_selector_computation [OF n drift_selector j] n j
  show ?thesis
    by (simp add: drift_selector v drift_probs rand6 Let_def)
qed

lemma materialize_concept_selector:
  assumes "materialize cdf fadd orc g r = (m, g', r')"
  shows "concept_selector g' = concept_selector g \<or>
         (\<exists>sel r1. make_concept_selector cdf (params g) r = (Inr sel, r1) \<and>
                    concept_selector g' = Some sel)"
proof (cases "0 < n_drifts (params g)")
  case False
  with assms have mb: "materialize_balance cdf fadd (make_concepts orc (params g)) g r = (m, g', r')"
    by (simp add: materialize_def)
  then show ?thesis
    by (cases m) (auto dest: materialize_balance_Inl materialize_balance_Inr)
next
  case True
  obtain s r1 where mk: "make_concept_selector cdf (params g) r = (s, r1)"
    by (cases "make_concept_selector cdf (params g) r") auto
  show ?thesis
  proof (cases s)
    case (Inl e)
    with assms True mk show ?thesis by (simp add: materialize_def)
  next
    case (Inr sel)
    with assms True mk have
      "materialize_balance cdf fadd (make_concepts orc (params g)) (g\<lparr>concept_selector := Some sel\<rparr>) r1
         = (m, g', r')"
      by (simp add: materialize_def)
    then have "concept_selector g' = Some sel"
      by (cases m) (auto dest: materialize_balance_Inl materialize_balance_Inr)
    with mk Inr show ?thesis by blast
  qed
qed

lemma get_chunk_concept_selector:
  assumes "get_chunk cdf fadd orc g r = (x, g', r')"
  shows "concept_selector g' = concept_selector g \<or>
         (\<exists>sel r1. make_concept_selector cdf (params g) r = (Inr sel, r1) \<and>
                    concept_selector g' = Some sel)"
proof (cases "attr_X g")
  case None
  obtain m g1 r1 where mat: "materialize cdf fadd orc g r = (m, g1, r1)"
    by (cases "materialize cdf fadd orc g r") auto
  have "concept_selector g' = concept_selector g1"
    using assms None mat
    by (auto simp: get_chunk_def Let_def split: sum.splits option.splits if_splits prod.splits)
  with materialize_concept_selector [OF mat] show ?thesis by simp
next
  case (Some xa)
  then have "concept_selector g' = concept_selector g"
    using assms
    by (auto simp: get_chunk_def Let_def split: sum.splits option.splits if_splits prod.splits)
  then show ?thesis by simp
qed

lemma get_chunks_concept_selector:
  assumes "get_chunks cdf fadd orc k (StreamGenerator c) r = (res, g, r')"
    and "concept_selector g = Some sel"
  shows "\<exists>r0 r1. make_concept_selector cdf c r0 = (Inr sel, r1)"
  using assms
proof (induction k arbitrary: res g r' sel)
  case 0
  then show ?case by (auto simp: StreamGenerator_def)
next
  case (Suc k)
  obtain res0 g0 r0 where p: "get_chunks cdf fadd orc k (StreamGenerator c) r = (res0, g0, r0)"
    by (cases "get_chunks cdf fadd orc k (StreamGenerator c) r") auto
  obtain x g1 r1 where q: "get_chunk cdf fadd orc g0 r0 = (x, g1, r1)"
    by (cases "get_chunk cdf fadd orc g0 r0") auto
  from Suc.prems(1) p q have g: "g = g1" by simp
  from get_chunks_inv [OF p] have c: "params g0 = c" by (simp add: stream_inv_def)
  from get_chunk_concept_selector [OF q] show ?case
  proof
    assume "concept_selector g1 = concept_selector g0"
    with Suc.prems(2) g Suc.IH [OF p] show ?thesis by simp
  next
    assume "\<exists>sel r1. make_concept_selector cdf (params g0) r0 = (Inr sel, r1) \<and>
                    concept_selector g1 = Some sel"
    with Suc.prems(2) g c show ?thesis by auto
  qed
qed

lemma np_less_binary: "np_less xs ys = Inr b \<Longrightarrow> set b \<subseteq> {0, 1}"
  by (auto simp: np_less_def split: option.splits)

text \<open>
  The concepts array holds, concept after concept and class after class, the transposed
  matrices the sampler returns: block \<open>i * n_classes + j\<close> is the matrix of class \<open>j\<close>
  sampled with the seed \<open>random_state + i\<close>.
\<close>

lemma length_np_T_data: "length (data (np_T a)) = prod_list (shape a)"
  by (simp add: np_T_def)

lemma length_sampled:
  "length (data (np_T (make_classification orc n m seed j))) = n_features orc * n"
  by (simp add: length_np_T_data) (simp add: make_classification_def)

lemma take_drop_take:
  "b + p \<le> m \<Longrightarrow> take p (drop b (take m ys)) = take p (drop b ys)"
  by (simp add: drop_take min_def)

lemma concat_blocks_nested:
  assumes len: "\<And>i j. i < n \<Longrightarrow> j < m \<Longrightarrow> length (f i j) = p" and i: "i < n" and j: "j < m"
  shows "take p (drop ((i * m + j) * p) (concat (map (\<lambda>i. concat (map (f i) [0..<m])) [0..<n])))
           = f i j"
proof -
  let ?row = "\<lambda>i. concat (map (f i) [0..<m])"
  let ?all = "concat (map ?row [0..<n])"
  have rowlen: "length (?row i') = m * p" if "i' < n" for i'
    using len that by (intro length_concat_blocks) simp
  have row: "take (m * p) (drop (i * (m * p)) ?all) = ?row i"
    using rowlen i by (intro take_drop_concat_blocks) simp_all
  have cell: "take p (drop (j * p) (?row i)) = f i j"
    using len i j by (intro take_drop_concat_blocks) simp_all
  have "Suc j \<le> m" using j by simp
  then have "Suc j * p \<le> m * p" by (rule mult_le_mono1)
  then have fit: "j * p + p \<le> m * p" by (simp add: algebra_simps)
  have "take p (drop (j * p) (drop (i * (m * p)) ?all))
          = take p (drop (j * p) (take (m * p) (drop (i * (m * p)) ?all)))"
    using fit by (simp only: take_drop_take)
  also have "\<dots> = f i j" by (simp only: row cell)
  finally show ?thesis by (simp add: algebra_simps)
qed

lemma make_concepts_data:
  "data (make_concepts orc c)
     = concat (map (\<lambda>i. concat (map (\<lambda>j. data (np_T (make_classification orc (n_samples c)
                                   (n_classes c) (random_state c + int i) j)))
                             [0..<n_classes c]))
                   [0..<(if reocurring c then 2 else n_drifts c + 1)])"
  by (simp add: make_concepts_def n_concepts_def n_samples_def)

lemma make_concepts_length:
  "length (data (make_concepts orc c))
     = (if reocurring c then 2 else n_drifts c + 1)
         * (n_classes c * (n_features orc * n_samples c))"
proof -
  let ?row = "\<lambda>i. concat (map (\<lambda>j. data (np_T (make_classification orc (n_samples c)
                (n_classes c) (random_state c + int i) j))) [0..<n_classes c])"
  let ?K = "if reocurring c then 2 else n_drifts c + 1"
  let ?cell = "\<lambda>i j. data (np_T (make_classification orc (n_samples c)
                (n_classes c) (random_state c + int i) j))"
  have "length (?row i) = n_classes c * (n_features orc * n_samples c)" for i
    using length_concat_blocks [of "n_classes c" "?cell i" "n_features orc * n_samples c"]
    by (simp add: length_sampled)
  then have "length (concat (map ?row [0..<?K]))
      = ?K * (n_classes c * (n_features orc * n_samples c))"
    using length_concat_blocks [of ?K ?row "n_classes c * (n_features orc * n_samples c)"]
    by simp
  then show ?thesis by (simp only: make_concepts_data)
qed

lemma make_concepts_block:
  assumes "i < (if reocurring c then 2 else n_drifts c + 1)" and "j < n_classes c"
  shows "take (n_features orc * n_samples c)
           (drop ((i * n_classes c + j) * (n_features orc * n_samples c))
              (data (make_concepts orc c)))
         = data (np_T (make_classification orc (n_samples c) (n_classes c)
                         (random_state c + int i) j))"
  unfolding make_concepts_data
  using assms by (intro concat_blocks_nested) (simp_all add: length_sampled)

text \<open>
  C8. With reoccurring drift two concepts are generated, \<open>n_drifts + 1\<close> without it: the
  concepts array has that many entries along its first axis, its data are that many
  times \<open>n_classes\<close> sampled matrices, and the matrix of concept \<open>i\<close> and class \<open>j\<close> is the
  one the sampler returns for the seed \<open>random_state + i\<close>. With reoccurring drift and
  \<open>n_drifts > 0\<close>, after any number of calls, the concept selector of the object holds
  only 0 and 1.
\<close>

theorem reoccurring_mode:
  "hd (shape (make_concepts orc c)) = (if reocurring c then 2 else n_drifts c + 1) \<and>
   shape (make_concepts orc c)
     = (if n_classes c = 0 then [if reocurring c then 2 else n_drifts c + 1, 0]
        else [if reocurring c then 2 else n_drifts c + 1, n_classes c, n_features orc,
              n_samples c]) \<and>
   length (data (make_concepts orc c))
     = (if reocurring c then 2 else n_drifts c + 1)
         * (n_classes c * (n_features orc * n_samples c)) \<and>
   (i < (if reocurring c then 2 else n_drifts c + 1) \<and> j < n_classes c \<longrightarrow>
      take (n_features orc * n_samples c)
        (drop ((i * n_classes c + j) * (n_features orc * n_samples c))
           (data (make_concepts orc c)))
      = data (np_T (make_classification orc (n_samples c) (n_classes c)
                      (random_state c + int i) j))) \<and>
   (reocurring c \<and> 0 < n_drifts c \<longrightarrow>
      (\<forall>sel. concept_selector (fst (snd (get_chunks cdf fadd orc k (StreamGenerator c) r)))
               = Some sel
             \<longrightarrow> set sel \<subseteq> {0, 1}))"
proof (intro conjI impI allI)
  show "hd (shape (make_concepts orc c)) = (if reocurring c then 2 else n_drifts c + 1)"
    by (simp add: make_concepts_def n_concepts_def)
next
  show "shape (make_concepts orc c)
     = (if n_classes c = 0 then [if reocurring c then 2 else n_drifts c + 1, 0]
        else [if reocurring c then 2 else n_drifts c + 1, n_classes c, n_features orc,
              n_samples c])"
    by (simp add: make_concepts_def n_concepts_def n_samples_def)
next
  show "length (data (make_concepts orc c))
     = (if reocurring c then 2 else n_drifts c + 1)
         * (n_classes c * (n_features orc * n_samples c))"
    by (rule make_concepts_length)
next
  assume "i < (if reocurring c then 2 else n_drifts c + 1) \<and> j < n_classes c"
  then show "take (n_features orc * n_samples c)
        (drop ((i * n_classes c + j) * (n_features orc * n_samples c))
           (data (make_concepts orc c)))
      = data (np_T (make_classification orc (n_samples c) (n_classes c)
                      (random_state c + int i) j))"
    by (intro make_concepts_block) simp_all
next
  fix sel
  assume rc: "reocurring c \<and> 0 < n_drifts c"
    and cs: "concept_selector (fst (snd (get_chunks cdf fadd orc k (StreamGenerator c) r)))
               = Some sel"
  obtain res g r' where p: "get_chunks cdf fadd orc k (StreamGenerator c) r = (res, g, r')"
    by (cases "get_chunks cdf fadd orc k (StreamGenerator c) r") auto
  with cs have "concept_selector g = Some sel" by simp
  from get_chunks_concept_selector [OF p this] obtain r0 r1
    where "make_concept_selector cdf c r0 = (Inr sel, r1)" by blast
  from make_concept_selector_Inr [OF this] rc show "set sel \<subseteq> {0, 1}"
    by (auto dest: np_less_binary)
qed

lemma recurring_run:
  "concept_selector (fst (snd (get_chunks logistic_cdf (+) smp 1 (StreamGenerator recurring_config) rngA)))
     = Some [0, 1, 1, 1, 0, 0]"
proof -
  have v: "n_drifts recurring_config = 2" "params (StreamGenerator recurring_config) = recurring_config"
    "attr_X (StreamGenerator recurring_config) = None"
    by (simp_all add: recurring_config_def base_config_def StreamGenerator_def)
  obtain m g r where mb: "materialize_balance logistic_cdf (+) (make_concepts smp recurring_config)
      ((StreamGenerator recurring_config)\<lparr>concept_selector := Some [0, 1, 1, 1, 0, 0]\<rparr>) (\<lambda>k. rngA (k + 6)) = (m, g, r)"
    by (metis prod_cases3)
  then have cs: "concept_selector g = Some [0, 1, 1, 1, 0, 0]"
    by (cases m) (auto dest: materialize_balance_Inl materialize_balance_Inr)
  have "materialize logistic_cdf (+) smp (StreamGenerator recurring_config) rngA = (m, g, r)"
    by (simp add: materialize_def v recurring_selector mb)
  then show ?thesis using cs v(3)
    by (auto simp: get_chunk_def Let_def split: sum.splits option.splits if_splits prod.splits)
qed

lemma recurring_concepts:
  "data (make_concepts smp recurring_config)
     = [1410, 1410, 1410, 1410, 1410, 1410, 1411, 1411, 1411, 1411, 1411, 1411,
        1420, 1420, 1420, 1420, 1420, 1420, 1421, 1421, 1421, 1421, 1421, 1421,
        1411, 1411, 1411, 1411, 1411, 1411, 1412, 1412, 1412, 1412, 1412, 1412,
        1421, 1421, 1421, 1421, 1421, 1421, 1422, 1422, 1422, 1422, 1422, 1422]"
  by code_simp

theorem reoccurring_mode_witness:
  "reocurring recurring_config \<and> 0 < n_drifts recurring_config \<and>
   (1::nat) < 2 \<and> (1::nat) < n_classes recurring_config \<and>
   hd (shape (make_concepts smp recurring_config)) = 2 \<and>
   shape (make_concepts smp recurring_config) = [2, 2, 2, 6] \<and>
   length (data (make_concepts smp recurring_config)) = 2 * (2 * (2 * 6)) \<and>
   take (2 * 6) (drop ((1 * 2 + 1) * (2 * 6)) (data (make_concepts smp recurring_config)))
     = data (np_T (make_classification smp 6 2 (1410 + 1) 1)) \<and>
   take (2 * 6) (drop ((1 * 2 + 1) * (2 * 6)) (data (make_concepts smp recurring_config)))
     = [1421, 1421, 1421, 1421, 1421, 1421, 1422, 1422, 1422, 1422, 1422, 1422] \<and>
   concept_selector (fst (snd (get_chunks logistic_cdf (+) smp 1 (StreamGenerator recurring_config) rngA)))
     = Some [0, 1, 1, 1, 0, 0] \<and>
   set [0, 1, 1, 1, 0, 0] \<subseteq> {0, 1 :: int}"
proof -
  have v: "reocurring recurring_config" "0 < n_drifts recurring_config"
    "n_classes recurring_config = 2" "n_samples recurring_config = 6"
    "random_state recurring_config = 1410" "n_features smp = 2"
    by (simp_all add: recurring_config_def base_config_def n_samples_def smp_def)
  have blk: "take (2 * 6) (drop ((1 * 2 + 1) * (2 * 6)) (data (make_concepts smp recurring_config)))
     = [1421, 1421, 1421, 1421, 1421, 1421, 1422, 1422, 1422, 1422, 1422, 1422]"
    by (simp add: recurring_concepts)
  from reoccurring_mode [of smp recurring_config 1 1 logistic_cdf "(+)" 1 rngA] v recurring_run blk
  show ?thesis by simp
qed

section \<open>The labels\<close>

lemma astype_int_range:
  assumes "0 \<le> x" "x < 1" "0 < n"
  shows "0 \<le> astype_int (x * real n) \<and> astype_int (x * real n) < int n"
proof -
  have nn: "0 \<le> x * real n" using assms by simp
  have "x * real n < real n" using assms by simp
  then have "\<lfloor>x * real n\<rfloor> < int n" by (simp add: floor_less_iff)
  moreover have "0 \<le> \<lfloor>x * real n\<rfloor>" using nn by simp
  ultimately show ?thesis using nn by (simp add: astype_int_def)
qed

lemma static_balance_range:
  assumes "j < length noise"
  shows "0 \<le> static_balance fadd noise (replicate (length noise) 0) 0 0 ws ! j \<and>
         static_balance fadd noise (replicate (length noise) 0) 0 0 ws ! j
           < int (max 1 (length ws))"
proof -
  have j: "j < length (replicate (length noise) (0::int))" using assms by simp
  note L = static_balance_nth [OF j, where ws=ws and noise=noise and acc=0 and i=0
      and fadd=fadd]
  show ?thesis
  proof (cases "\<exists>k<length ws. noise ! j > foldl fadd 0 (take k ws)")
    case True
    with L obtain m where "m < length ws"
      "static_balance fadd noise (replicate (length noise) 0) 0 0 ws ! j = int (0 + m)" by blast
    then show ?thesis by simp
  next
    case False
    with L have "static_balance fadd noise (replicate (length noise) 0) 0 0 ws ! j = 0"
      using assms by simp
    then show ?thesis by simp
  qed
qed

lemma make_class_selector_range:
  assumes "weights_ok c" "0 < n_classes c" "\<forall>x\<in>set noise. 0 \<le> x \<and> x < 1"
    and "make_class_selector cdf fadd c noise = Inr sel"
  shows "\<forall>l\<in>set sel. 0 \<le> l \<and> l < int (n_classes c)"
proof (cases "weights c")
  case Unset
  with assms(4) have "sel = map (\<lambda>x. astype_int (x * real (n_classes c))) noise"
    by (simp add: make_class_selector_def)
  with assms(2,3) show ?thesis by (auto dest!: astype_int_range [where n="n_classes c"])
next
  case (Static ws)
  with assms(4) have sel: "sel = static_balance fadd noise (replicate (length noise) 0) 0 0 ws"
    by (simp add: make_class_selector_def)
  from Static assms(1) have len: "length ws = n_classes c" by (simp add: weights_ok_def)
  show ?thesis
  proof
    fix l assume "l \<in> set sel"
    then obtain j where "j < length sel" "l = sel ! j" by (auto simp: in_set_conv_nth)
    then have "j < length noise" using sel by (simp add: length_static_balance)
    from static_balance_range [OF this, of fadd ws] \<open>l = sel ! j\<close> sel len assms(2)
    show "0 \<le> l \<and> l < int (n_classes c)" by simp
  qed
next
  case (Dynamic nb sp amp)
  with assms(4) have "set sel \<subseteq> {0, 1}"
    by (auto simp: make_class_selector_def Let_def split: prod.splits dest!: np_less_binary)
  moreover from Dynamic assms(1) have "n_classes c = 2" by (simp add: weights_ok_def)
  ultimately show ?thesis by auto
qed

lemma unit_rng_rand:
  "unit_rng r \<Longrightarrow> unit_rng (snd (rand r n)) \<and> (\<forall>x\<in>set (fst (rand r n)). 0 \<le> x \<and> x < 1)"
  by (auto simp: unit_rng_def rand_def)

lemma make_concept_selector_rng:
  "make_concept_selector cdf c r = (s, r') \<Longrightarrow> r' = snd (rand r (n_samples c))"
  by (auto simp: make_concept_selector_def Let_def split: prod.splits sum.splits)

lemma materialize_labels:
  assumes "materialize cdf fadd orc g r = (m, g', r')" and "unit_rng r"
  shows "unit_rng r' \<and>
         (case m of
            Inl e \<Rightarrow> True
          | Inr u \<Rightarrow> (\<exists>sel noise. attr_y g' = Some sel \<and> (\<forall>x\<in>set noise. 0 \<le> x \<and> x < 1) \<and>
                       make_class_selector cdf fadd (params g) noise = Inr sel))"
proof -
  have mb: "unit_rng r1' \<and>
         (case m of
            Inl e \<Rightarrow> True
          | Inr u \<Rightarrow> (\<exists>sel noise. attr_y g' = Some sel \<and> (\<forall>x\<in>set noise. 0 \<le> x \<and> x < 1) \<and>
                       make_class_selector cdf fadd (params g) noise = Inr sel))"
    if "materialize_balance cdf fadd cs g1 r1 = (m, g', r1')" "unit_rng r1" "params g1 = params g"
    for cs g1 r1 r1'
  proof (cases m)
    case (Inl e)
    with that materialize_balance_Inl [of cdf fadd cs g1 r1 e g' r1'] unit_rng_rand [of r1]
    show ?thesis by simp
  next
    case (Inr u)
    with that materialize_balance_Inr [of cdf fadd cs g1 r1 u g' r1'] unit_rng_rand [of r1 "n_samples (params g)"]
    show ?thesis by auto
  qed
  show ?thesis
  proof (cases "0 < n_drifts (params g)")
    case False
    with assms mb [of "make_concepts orc (params g)" g r r'] show ?thesis
      by (simp add: materialize_def)
  next
    case True
    obtain s r1 where mk: "make_concept_selector cdf (params g) r = (s, r1)"
      by (cases "make_concept_selector cdf (params g) r") auto
    then have r1: "unit_rng r1"
      using make_concept_selector_rng [OF mk] unit_rng_rand [OF assms(2)] by simp
    show ?thesis
    proof (cases s)
      case (Inl e)
      with assms True mk r1 show ?thesis by (auto simp: materialize_def)
    next
      case (Inr sel)
      with assms True mk have
        "materialize_balance cdf fadd (make_concepts orc (params g)) (g\<lparr>concept_selector := Some sel\<rparr>) r1
           = (m, g', r')"
        by (simp add: materialize_def)
      from mb [OF this r1] show ?thesis by simp
    qed
  qed
qed

lemma set_slice_subset: "set (slice xs s e) \<subseteq> set xs"
  unfolding slice_def by (meson set_take_subset set_drop_subset subset_trans)

lemma get_chunk_attr_y:
  assumes "get_chunk cdf fadd orc g r = (x, g', r')" and "unit_rng r"
  shows "unit_rng r' \<and>
         (attr_y g' = attr_y g \<or>
          (\<exists>sel noise. attr_y g' = Some sel \<and> (\<forall>x\<in>set noise. 0 \<le> x \<and> x < 1) \<and>
                        make_class_selector cdf fadd (params g) noise = Inr sel))"
proof (cases "attr_X g")
  case None
  obtain m g1 r1 where mat: "materialize cdf fadd orc g r = (m, g1, r1)"
    by (cases "materialize cdf fadd orc g r") auto
  have "attr_y g' = attr_y g1 \<and> r' = r1 \<and> (m = Inl AttributeError \<or> (\<exists>e. m = Inl e) \<or> (\<exists>u. m = Inr u))"
    using assms(1) None mat
    by (auto simp: get_chunk_def Let_def split: sum.splits option.splits if_splits prod.splits)
  moreover have "attr_y g1 = attr_y g" if "m = Inl e" for e
    using materialize_Inl [of cdf fadd orc g r e g1 r1] mat that by simp
  ultimately show ?thesis using materialize_labels [OF mat assms(2)]
    by (cases m) auto
next
  case (Some xa)
  then have "attr_y g' = attr_y g \<and> r' = r"
    using assms(1)
    by (auto simp: get_chunk_def Let_def split: sum.splits option.splits if_splits prod.splits)
  then show ?thesis using assms(2) by simp
qed

lemma get_chunk_labels:
  assumes "get_chunk cdf fadd orc g r = (Inr (Some (xs, ys)), g', r')"
  shows "\<exists>y cid. attr_y g' = Some y \<and> chunk_id g' = Some cid \<and> params g' = params g \<and>
           ys = slice y (chunk_size (params g) * nat cid)
                        (chunk_size (params g) * nat cid + chunk_size (params g))"
proof (cases "attr_X g")
  case None
  obtain m g1 r1 where mat: "materialize cdf fadd orc g r = (m, g1, r1)"
    by (cases "materialize cdf fadd orc g r") auto
  show ?thesis
  proof (cases m)
    case (Inl e)
    with assms None mat show ?thesis by (simp add: get_chunk_def)
  next
    case (Inr u)
    from materialize_Inr [OF mat [unfolded Inr]] have "params g1 = params g" by blast
    with assms None mat Inr show ?thesis
      by (auto simp: get_chunk_def Let_def split: sum.splits option.splits if_splits prod.splits)
  qed
next
  case (Some xa)
  with assms show ?thesis
    by (auto simp: get_chunk_def Let_def split: sum.splits option.splits if_splits prod.splits)
qed

lemma get_chunks_labels:
  assumes "unit_rng r" "weights_ok c" "0 < n_classes c"
    and "get_chunks cdf fadd orc k (StreamGenerator c) r = (res, g, r')"
  shows "unit_rng r' \<and> (\<forall>y. attr_y g = Some y \<longrightarrow> (\<forall>l\<in>set y. 0 \<le> l \<and> l < int (n_classes c)))"
  using assms(4)
proof (induction k arbitrary: res g r')
  case 0
  then show ?case using assms(1) by (auto simp: StreamGenerator_def)
next
  case (Suc k)
  obtain res0 g0 r0 where p: "get_chunks cdf fadd orc k (StreamGenerator c) r = (res0, g0, r0)"
    by (cases "get_chunks cdf fadd orc k (StreamGenerator c) r") auto
  obtain x g1 r1 where q: "get_chunk cdf fadd orc g0 r0 = (x, g1, r1)"
    by (cases "get_chunk cdf fadd orc g0 r0") auto
  from Suc.prems p q have g: "g = g1" "r' = r1" by simp_all
  from get_chunks_inv [OF p] have c: "params g0 = c" by (simp add: stream_inv_def)
  from Suc.IH [OF p] have ih: "unit_rng r0"
    "\<forall>y. attr_y g0 = Some y \<longrightarrow> (\<forall>l\<in>set y. 0 \<le> l \<and> l < int (n_classes c))" by simp_all
  from get_chunk_attr_y [OF q ih(1)] have u: "unit_rng r1"
    and d: "attr_y g1 = attr_y g0 \<or>
          (\<exists>sel noise. attr_y g1 = Some sel \<and> (\<forall>x\<in>set noise. 0 \<le> x \<and> x < 1) \<and>
                        make_class_selector cdf fadd (params g0) noise = Inr sel)" by simp_all
  from d have "\<forall>y. attr_y g1 = Some y \<longrightarrow> (\<forall>l\<in>set y. 0 \<le> l \<and> l < int (n_classes c))"
  proof
    assume "attr_y g1 = attr_y g0"
    with ih(2) show ?thesis by simp
  next
    assume "\<exists>sel noise. attr_y g1 = Some sel \<and> (\<forall>x\<in>set noise. 0 \<le> x \<and> x < 1) \<and>
                        make_class_selector cdf fadd (params g0) noise = Inr sel"
    then obtain sel noise where s: "attr_y g1 = Some sel" "\<forall>x\<in>set noise. 0 \<le> x \<and> x < 1"
      "make_class_selector cdf fadd c noise = Inr sel" using c by auto
    from make_class_selector_range [OF assms(2,3) s(2,3)] s(1) show ?thesis by simp
  qed
  with u g show ?case by simp
qed

lemma second_chunk:
  "fst (get_chunk cdf fadd smp (fst (snd (get_chunks cdf fadd smp 1 (StreamGenerator base_config) rngA)))
          (snd (snd (get_chunks cdf fadd smp 1 (StreamGenerator base_config) rngA))))
     = Inr (Some (\<lparr>shape = [3, 2], data = [1420, 1421, 1410, 1411, 1420, 1421]\<rparr>, [1, 0, 1]))"
  by code_simp

text \<open>
  C6, with at least one class. Let the weights be unset, or one threshold per class, or a
  drifting balance with two classes, and let the noise lie in [0, 1). Then whenever a
  call, the first or a later one, returns a chunk, every label of the chunk is at least 0
  and below \<open>n_classes\<close>, and the labels are the class selector cut to the sample range
  of the chunk.
\<close>

theorem label_range:
  assumes "unit_rng r" and "weights_ok c" and "0 < n_classes c"
    and "get_chunks cdf fadd orc k (StreamGenerator c) r = (res, g, r')"
    and "get_chunk cdf fadd orc g r' = (Inr (Some (xs, ys)), g', r'')"
  shows "(\<forall>l\<in>set ys. 0 \<le> l \<and> l < int (n_classes c)) \<and>
         (\<exists>sel cid. class_selector g' = Some sel \<and> chunk_id g' = Some cid \<and>
            ys = slice sel (chunk_size c * nat cid) (chunk_size c * nat cid + chunk_size c))"
proof -
  have run: "get_chunks cdf fadd orc (Suc k) (StreamGenerator c) r = (res @ [Inr (Some (xs, ys))], g', r'')"
    using assms(4,5) by simp
  from get_chunks_inv [OF assms(4)] have c: "params g = c" by (simp add: stream_inv_def)
  from get_chunks_inv [OF run] have inv: "stream_inv c (res @ [Inr (Some (xs, ys))]) g'" by simp
  from get_chunk_labels [OF assms(5)] c obtain y cid where
    y: "attr_y g' = Some y" "chunk_id g' = Some cid"
       "ys = slice y (chunk_size c * nat cid) (chunk_size c * nat cid + chunk_size c)" by auto
  from inv y(1) have cs: "class_selector g' = Some y"
    by (cases "attr_X g'") (auto simp: stream_inv_def successes_def)
  from get_chunks_labels [OF assms(1,2,3) run] y(1)
  have "\<forall>l\<in>set y. 0 \<le> l \<and> l < int (n_classes c)" by simp
  with y(3) set_slice_subset [of y] have "\<forall>l\<in>set ys. 0 \<le> l \<and> l < int (n_classes c)" by blast
  with y cs show ?thesis by simp
qed

theorem label_range_witness:
  "unit_rng rngA \<and> weights_ok base_config \<and> 0 < n_classes base_config \<and>
   fst (get_chunk logistic_cdf (+) smp
          (fst (snd (get_chunks logistic_cdf (+) smp 1 (StreamGenerator base_config) rngA)))
          (snd (snd (get_chunks logistic_cdf (+) smp 1 (StreamGenerator base_config) rngA))))
     = Inr (Some (\<lparr>shape = [3, 2], data = [1420, 1421, 1410, 1411, 1420, 1421]\<rparr>, [1, 0, 1])) \<and>
   list_all (\<lambda>l. 0 \<le> l \<and> l < int (n_classes base_config)) [1, 0, 1]"
proof -
  let ?run = "get_chunks logistic_cdf (+) smp 1 (StreamGenerator base_config) rngA"
  let ?call = "get_chunk logistic_cdf (+) smp (fst (snd ?run)) (snd (snd ?run))"
  have u: "unit_rng rngA" by (simp add: unit_rng_def rngA_def)
  have w: "weights_ok base_config" by (simp add: weights_ok_def base_config_def)
  have n: "0 < n_classes base_config" by (simp add: base_config_def)
  have r: "?run = (fst ?run, fst (snd ?run), snd (snd ?run))" by simp
  have "?call = (fst ?call, fst (snd ?call), snd (snd ?call))" by simp
  then have c: "?call = (Inr (Some (\<lparr>shape = [3, 2], data = [1420, 1421, 1410, 1411, 1420, 1421]\<rparr>,
      [1, 0, 1])), fst (snd ?call), snd (snd ?call))"
    by (simp only: second_chunk)
  from label_range [OF u w n r c] have "list_all (\<lambda>l. 0 \<le> l \<and> l < int (n_classes base_config)) [1, 0, 1]"
    by (simp add: list_all_iff)
  with u w n second_chunk [of logistic_cdf "(+)"] show ?thesis by blast
qed

lemma zero_class_chunk:
  "fst (get_chunk cdf fadd smp (StreamGenerator zero_class_config) rngA)
     = Inr (Some (\<lparr>shape = [0], data = []\<rparr>, [0]))"
  by code_simp

text \<open>
  C6, as the specification words it, fails where there is no class: with \<open>n_classes = 0\<close>, two
  reoccurring concepts and a stream of one sample, the concepts array has the shape
  (2, 0), \<^verbatim>\<open>np.choose\<close> has nothing to fill and checks no index, and the call returns
  the label 0, which is not below \<open>n_classes\<close>.
\<close>

theorem label_range_counterexample:
  "weights zero_class_config = Unset \<and>
   fst (get_chunk logistic_cdf (+) smp (StreamGenerator zero_class_config) rngA)
     = Inr (Some (\<lparr>shape = [0], data = []\<rparr>, [0])) \<and>
   \<not> (0::int) < int (n_classes zero_class_config)"
  by (simp add: zero_class_chunk) (simp add: zero_class_config_def base_config_def)

section \<open>Drift counts that do not divide the stream\<close>

lemma make_concept_selector_mismatch:
  assumes "0 < n_drifts c" and "\<not> n_drifts c dvd n_samples c" and "n_samples c \<noteq> 1"
  shows "make_concept_selector cdf c r = (Inl OperandsNotBroadcast, snd (rand r (n_samples c)))"
proof -
  let ?n = "n_drifts c" and ?N = "n_samples c"
  let ?probs = "snd (sigmoid cdf c (concept_sigmoid_spacing c) ?n)"
  define L where "L = ?n * (?N div ?n)"
  have len: "length ?probs = L" unfolding L_def using assms(1) by (rule sigmoid_length)
  have "L \<noteq> ?N"
  proof
    assume "L = ?N"
    then have "?n dvd ?N" unfolding L_def by (metis dvd_triv_left)
    with assms(2) show False by simp
  qed
  moreover have "L \<noteq> 1"
  proof
    assume "L = 1"
    then have "?n = 1" by (simp add: L_def)
    with assms(2) show False by simp
  qed
  ultimately have "broadcast_dim L ?N = None"
    using assms(3) by (simp add: broadcast_dim_def)
  then have "np_less ?probs (fst (rand r ?N)) = Inl OperandsNotBroadcast"
    by (simp add: np_less_def len)
  then show ?thesis
    by (simp add: make_concept_selector_def Let_def case_prod_unfold)
qed

lemma get_chunk_mismatch:
  assumes "0 < n_drifts (params g)" and "\<not> n_drifts (params g) dvd n_samples (params g)"
    and "n_samples (params g) \<noteq> 1" and "attr_X g = None"
  shows "get_chunk cdf fadd orc g r = (Inl OperandsNotBroadcast, g, snd (rand r (n_samples (params g))))"
  using assms make_concept_selector_mismatch [OF assms(1,2,3), of cdf r]
  by (simp add: get_chunk_def materialize_def)

text \<open>
  C10, for streams of more than one sample. With \<open>n_drifts > 0\<close> that does not divide the
  number of samples, and a number of samples other than 1, every call fails when the
  probabilities are compared with the noise, and leaves the object without a stream: no
  chunk is ever returned, however often the call is repeated.
\<close>

theorem indivisible_drifts_fail:
  assumes "0 < n_drifts c" and "\<not> n_drifts c dvd n_samples c" and "n_samples c \<noteq> 1"
  shows "fst (get_chunks cdf fadd orc k (StreamGenerator c) r) = replicate k (Inl OperandsNotBroadcast) \<and>
         fst (snd (get_chunks cdf fadd orc k (StreamGenerator c) r)) = StreamGenerator c"
proof (induction k)
  case 0
  show ?case by simp
next
  case (Suc k)
  obtain res g r' where p: "get_chunks cdf fadd orc k (StreamGenerator c) r = (res, g, r')"
    by (cases "get_chunks cdf fadd orc k (StreamGenerator c) r") auto
  with Suc have g: "g = StreamGenerator c" and res: "res = replicate k (Inl OperandsNotBroadcast)"
    by simp_all
  have "params g = c" "attr_X g = None" by (simp_all add: g StreamGenerator_def)
  with assms have "get_chunk cdf fadd orc g r' = (Inl OperandsNotBroadcast, g, snd (rand r' (n_samples c)))"
    using get_chunk_mismatch [of g cdf fadd orc r'] by simp
  moreover have "replicate k (Inl OperandsNotBroadcast) @ [Inl OperandsNotBroadcast]
      = replicate (Suc k) (Inl OperandsNotBroadcast :: error + chunk option)"
    by (simp add: replicate_append_same)
  ultimately show ?case using p g res by (simp del: replicate.simps)
qed

theorem indivisible_drifts_fail_witness:
  "0 < n_drifts odd_drift_config \<and> \<not> n_drifts odd_drift_config dvd n_samples odd_drift_config \<and>
   n_samples odd_drift_config \<noteq> 1 \<and>
   fst (get_chunks logistic_cdf (+) smp 2 (StreamGenerator odd_drift_config) rngA)
     = [Inl OperandsNotBroadcast, Inl OperandsNotBroadcast]"
proof -
  have h: "0 < n_drifts odd_drift_config" "\<not> n_drifts odd_drift_config dvd n_samples odd_drift_config"
    "n_samples odd_drift_config \<noteq> 1"
    by (simp_all add: odd_drift_config_def base_config_def n_samples_def)
  from indivisible_drifts_fail [OF h, of logistic_cdf "(+)" smp 2 rngA] h show ?thesis
    by (simp add: numeral_2_eq_2)
qed

lemma tiny_drift_chunk:
  "fst (get_chunk cdf fadd smp (StreamGenerator tiny_drift_config) rngA)
     = Inr (Some (\<lparr>shape = [0, 2], data = []\<rparr>, [1]))"
  by code_simp

text \<open>
  C10, as the specification words it, fails on a stream of one sample: with two drifts the period
  is 0, there is no probability, and the comparison of no probability with one noise
  value broadcasts to an empty selector instead of failing. The call returns a chunk
  with one label and no features.
\<close>

theorem indivisible_drifts_counterexample:
  "0 < n_drifts tiny_drift_config \<and>
   \<not> n_drifts tiny_drift_config dvd n_chunks tiny_drift_config * chunk_size tiny_drift_config \<and>
   fst (get_chunk logistic_cdf (+) smp (StreamGenerator tiny_drift_config) rngA)
     = Inr (Some (\<lparr>shape = [0, 2], data = []\<rparr>, [1]))"
  by (simp add: tiny_drift_chunk) (simp add: tiny_drift_config_def base_config_def)

section \<open>Reproducibility\<close>

lemma first_instance:
  "fst (get_chunks cdf fadd smp 2 (StreamGenerator base_config) rngC)
     = [Inr (Some (\<lparr>shape = [3, 2], data = [1420, 1421, 1410, 1411, 1410, 1411]\<rparr>, [1, 0, 0])),
        Inr (Some (\<lparr>shape = [3, 2], data = [1410, 1411, 1410, 1411, 1410, 1411]\<rparr>, [0, 0, 0]))]"
  by code_simp

lemma second_instance:
  "fst (get_chunks cdf fadd smp 2 (StreamGenerator base_config)
          (snd (snd (get_chunks cdf fadd smp 2 (StreamGenerator base_config) rngC))))
     = [Inr (Some (\<lparr>shape = [3, 2], data = [1410, 1411, 1410, 1411, 1410, 1411]\<rparr>, [0, 0, 0])),
        Inr (Some (\<lparr>shape = [3, 2], data = [1410, 1411, 1410, 1411, 1410, 1411]\<rparr>, [0, 0, 0]))]"
  by code_simp

text \<open>
  C1 fails on the code. The noise comes from the global generator of numpy, which
  \<open>random_state\<close> does not seed: a second generator, built with the parameters of the
  first after the first has drawn its stream, draws other noise and returns other chunks.
\<close>

theorem same_seed_different_chunks:
  "fst (get_chunks logistic_cdf (+) smp 2 (StreamGenerator base_config)
          (snd (snd (get_chunks logistic_cdf (+) smp 2 (StreamGenerator base_config) rngC))))
     \<noteq> fst (get_chunks logistic_cdf (+) smp 2 (StreamGenerator base_config) rngC)"
  by (simp only: first_instance second_instance) simp

end
